theory Spec2Isabelle
  imports Complex_Main "HOL-Library.Char_ord" "HOL-Library.List_Lexorder"
    "HOL-Library.AList" "HOL-Library.Multiset"
begin

section \<open>Go strings as byte lists\<close>

text \<open>
  A Go \<^verbatim>\<open>string\<close> is a sequence of bytes; it is modelled as \<^typ>\<open>string\<close>
  (a list of 8-bit characters). The functions of Go's \<^verbatim>\<open>strings\<close> package that the
  program calls are written out below on bytes. Case mapping and white space are the
  ASCII ones: on text that is pure ASCII they agree with Go's Unicode-aware functions.
  Comparison of strings (\<open><\<close>, \<open>\<le>\<close>) is the lexicographic order on bytes, as in Go.
\<close>

definition isSpace :: "char \<Rightarrow> bool" where
  "isSpace c = (c = CHR 0x09 \<or> c = CHR 0x0A \<or> c = CHR 0x0B \<or> c = CHR 0x0C \<or> c = CHR 0x0D \<or> c = CHR '' '')"

definition TrimSpace :: "string \<Rightarrow> string" where
  "TrimSpace s = rev (dropWhile isSpace (rev (dropWhile isSpace s)))"

definition isUpper :: "char \<Rightarrow> bool" where
  "isUpper c = (65 \<le> (of_char c :: nat) \<and> (of_char c :: nat) \<le> 90)"

definition toLowerChar :: "char \<Rightarrow> char" where
  "toLowerChar c = (if isUpper c then char_of ((of_char c :: nat) + 32) else c)"

definition ToLower :: "string \<Rightarrow> string" where
  "ToLower s = map toLowerChar s"

definition HasPrefix :: "string \<Rightarrow> string \<Rightarrow> bool" where
  "HasPrefix s p = (take (length p) s = p)"

definition HasSuffix :: "string \<Rightarrow> string \<Rightarrow> bool" where
  "HasSuffix s p = (length p \<le> length s \<and> drop (length s - length p) s = p)"

definition TrimPrefix :: "string \<Rightarrow> string \<Rightarrow> string" where
  "TrimPrefix s p = (if HasPrefix s p then drop (length p) s else s)"

definition TrimSuffix :: "string \<Rightarrow> string \<Rightarrow> string" where
  "TrimSuffix s p = (if HasSuffix s p then take (length s - length p) s else s)"

fun Contains :: "string \<Rightarrow> string \<Rightarrow> bool" where
  "Contains [] sub = (sub = [])"
| "Contains (c # cs) sub = (HasPrefix (c # cs) sub \<or> Contains cs sub)"

text \<open>\<^verbatim>\<open>strings.Split(s, "\n")\<close>: the pieces between line feeds, at least one piece.\<close>

fun SplitLines :: "string \<Rightarrow> string list" where
  "SplitLines [] = [[]]"
| "SplitLines (c # cs) =
     (if c = CHR 0x0A then [] # SplitLines cs
      else (case SplitLines cs of [] \<Rightarrow> [[c]] | l # ls \<Rightarrow> (c # l) # ls))"

text \<open>\<^verbatim>\<open>strings.Join(lines, "\n")\<close>.\<close>

fun JoinLines :: "string list \<Rightarrow> string" where
  "JoinLines [] = []"
| "JoinLines [l] = l"
| "JoinLines (l # ls) = l @ [CHR 0x0A] @ JoinLines ls"

text \<open>The loop \<^verbatim>\<open>for _, p := range patterns { if strings.Contains(low, p) { return true } }\<close>.\<close>

definition containsAnyOf :: "string \<Rightarrow> string list \<Rightarrow> bool" where
  "containsAnyOf low patterns = list_ex (\<lambda>p. Contains low p) patterns"

section \<open>Floating-point numbers\<close>

text \<open>
  A \<^verbatim>\<open>float64\<close> that the program only compares and clamps (the confidence of a
  provider, the thresholds of the configuration) is a value of the type below: a finite
  number, one of the two infinities, or a NaN. A confidence can be any of these, since
  the loose decoder of the provider's reply parses it with \<^verbatim>\<open>strconv.ParseFloat\<close>, and
  so can a threshold read from the configuration file. \<open>fless\<close> and \<open>fle\<close> are Go's \<open><\<close>
  and \<open>\<le>\<close>: every comparison with a NaN is false.
\<close>

datatype float64 = Finite real | PosInf | NegInf | NaN

fun fless :: "float64 \<Rightarrow> float64 \<Rightarrow> bool" where
  "fless (Finite a) (Finite b) = (a < b)"
| "fless (Finite a) PosInf = True"
| "fless (Finite a) NegInf = False"
| "fless (Finite a) NaN = False"
| "fless NegInf (Finite b) = True"
| "fless NegInf PosInf = True"
| "fless NegInf NegInf = False"
| "fless NegInf NaN = False"
| "fless PosInf v = False"
| "fless NaN v = False"

definition fle :: "float64 \<Rightarrow> float64 \<Rightarrow> bool" where
  "fle a b = (a \<noteq> NaN \<and> b \<noteq> NaN \<and> \<not> fless b a)"

text \<open>
  A \<^verbatim>\<open>float64\<close> on which the program computes (the scores of the memory store) is
  always finite: \<^verbatim>\<open>encoding/json\<close> has no notation for a NaN or an infinity and refuses
  a number outside the range of \<^verbatim>\<open>float64\<close>, and the sums and products below stay in
  that range. Such a value is modelled as the real number it denotes. An arithmetic
  operation of Go returns the exact result rounded to a \<^verbatim>\<open>float64\<close>, each operation
  on its own (a product and a sum are not fused), and a decimal constant of the source
  denotes the \<^verbatim>\<open>float64\<close> it rounds to. The rounding function is
  the argument \<open>rnd\<close> of the definitions that compute. The theorems hold for every
  function \<open>rnd\<close> (what a theorem needs of it is a hypothesis of the theorem), and so for
  the rounding that the machine performs, \<open>roundFloat64\<close> below. With the identity for
  \<open>rnd\<close> the operations are those of the real numbers.
\<close>

definition fadd :: "(real \<Rightarrow> real) \<Rightarrow> real \<Rightarrow> real \<Rightarrow> real" where
  "fadd rnd a b = rnd (a + b)"



text \<open>
  The rounding of IEEE 754 binary64 arithmetic, to the nearest \<^verbatim>\<open>float64\<close> with ties
  to the even significand, for a result within the range of \<^verbatim>\<open>float64\<close>. A
  \<^verbatim>\<open>float64\<close> is a multiple of \<open>2^(e - 52)\<close>, where \<open>e\<close> is the binary exponent of the
  number and at least -1022. \<open>binaryExponent\<close> finds the exponent of a positive number
  by halving or doubling, at most as often as its first argument says; 2200 steps
  cover the range of \<^verbatim>\<open>float64\<close>.
\<close>

fun binaryExponent :: "nat \<Rightarrow> real \<Rightarrow> int" where
  "binaryExponent 0 x = 0"
| "binaryExponent (Suc fuel) x =
     (if 2 \<le> x then binaryExponent fuel (x / 2) + 1
      else if x < 1 then binaryExponent fuel (x * 2) - 1
      else 0)"

definition twoToThe :: "int \<Rightarrow> real" where
  "twoToThe e = (if 0 \<le> e then 2 ^ nat e else 1 / 2 ^ nat (- e))"

definition roundHalfEven :: "real \<Rightarrow> int" where
  "roundHalfEven q =
     (let f = \<lfloor>q\<rfloor>; d = q - of_int f in
      if d < 1 / 2 then f else if 1 / 2 < d then f + 1 else if even f then f else f + 1)"

definition roundFloat64 :: "real \<Rightarrow> real" where
  "roundFloat64 x =
     (if x = 0 then 0
      else (let e = max (binaryExponent 2200 \<bar>x\<bar>) (- 1022); u = twoToThe (e - 52)
            in of_int (roundHalfEven (x / u)) * u))"

lemma roundFloat64_constants:
  "roundFloat64 0.60 = 5404319552844595 / 9007199254740992"
  "roundFloat64 0.70 = 3152519739159347 / 4503599627370496"
  "roundFloat64 3.2 = 3602879701896397 / 1125899906842624"
  by code_simp+

section \<open>Configuration, provider resolution and intent\<close>

text \<open>
  The fields of \<^verbatim>\<open>config.Config\<close> that the policy engine and the execution driver
  read. Both \<^verbatim>\<open>IntentConfig\<close> and \<^verbatim>\<open>AIConfig\<close> have a field \<^verbatim>\<open>MinConfidence\<close>;
  the second is written \<open>AIMinConfidence\<close> here.
\<close>

record IntentConfig =
  MinConfidence :: float64

record SafetyConfig =
  RedactSecrets :: bool
  BlockHighRisk :: bool
  AllowYoloHighRisk :: bool

record AIConfig =
  AIMinConfidence :: float64
  AllowSuggestExecution :: bool

record Config =
  Mode :: string
  Fix :: IntentConfig
  Find :: IntentConfig
  Safety :: SafetyConfig
  AI :: AIConfig

text \<open>
  \<^verbatim>\<open>config.Default()\<close>, on these fields. The constants 0.70 and 0.60 of the source are
  the \<^verbatim>\<open>float64\<close> values that the decimals round to.
\<close>

definition Default :: Config where
  "Default = \<lparr> Mode = ''confirm'',
     Fix = \<lparr> MinConfidence = Finite (roundFloat64 0.70) \<rparr>,
     Find = \<lparr> MinConfidence = Finite (roundFloat64 0.60) \<rparr>,
     Safety = \<lparr> RedactSecrets = True, BlockHighRisk = True, AllowYoloHighRisk = False \<rparr>,
     AI = \<lparr> AIMinConfidence = Finite (roundFloat64 0.60), AllowSuggestExecution = False \<rparr> \<rparr>"

text \<open>\<^verbatim>\<open>provider.Resolution\<close>.\<close>

record Resolution =
  Action :: string
  Command :: string
  Reason :: string
  Risk :: string
  Confidence :: float64
  NeedsConfirmation :: bool

text \<open>\<^verbatim>\<open>router.Intent\<close> is a string type with named constants.\<close>

type_synonym Intent = string

definition IntentFix :: Intent where "IntentFix = ''fix''"
definition IntentFind :: Intent where "IntentFind = ''find''"
definition IntentRun :: Intent where "IntentRun = ''run''"

section \<open>Command normalization (package runtime)\<close>

text \<open>
  \<^verbatim>\<open>NormalizeCommand\<close> returns the cleaned command or an error; the error is the
  left injection, carrying the error's text.
\<close>

definition stripFence :: "string \<Rightarrow> string" where
  "stripFence trimmed =
     (if HasPrefix trimmed ''```'' then
        (let lines = SplitLines trimmed;
             lines1 = (if lines \<noteq> [] \<and> HasPrefix (TrimSpace (hd lines)) ''```''
                       then tl lines else lines);
             lines2 = (if lines1 \<noteq> [] \<and> TrimSpace (last lines1) = ''```''
                       then butlast lines1 else lines1)
         in TrimSpace (JoinLines lines2))
      else trimmed)"

definition stripPrompt :: "string \<Rightarrow> string" where
  "stripPrompt trimmed =
     (if HasPrefix trimmed ''$ '' then TrimSpace (TrimPrefix trimmed ''$ '')
      else if HasPrefix trimmed ''> '' then TrimSpace (TrimPrefix trimmed ''> '')
      else trimmed)"

definition NormalizeCommand :: "string \<Rightarrow> string + string" where
  "NormalizeCommand command =
     (let trimmed = TrimSpace command in
      if trimmed = [] then Inl ''command cannot be empty''
      else if CHR 0x00 \<in> set trimmed then Inl ''command contains invalid null byte''
      else (let trimmed' = stripPrompt (stripFence trimmed) in
            if trimmed' = [] then Inl ''command cannot be empty''
            else Inr trimmed'))"

section \<open>The policy engine (evaluateAIResolution)\<close>

record aiExecutionDecision =
  Allowed :: bool
  DCommand :: string
  DReason :: string
  RiskHint :: string
  ModeOverride :: string
  Message :: string

text \<open>The zero value of the struct: every field the code does not set.\<close>

definition zeroDecision :: aiExecutionDecision where
  "zeroDecision = \<lparr> Allowed = False, DCommand = [], DReason = [], RiskHint = [],
     ModeOverride = [], Message = [] \<rparr>"

definition normalizeRiskHint :: "string \<Rightarrow> string" where
  "normalizeRiskHint risk =
     (let r = ToLower (TrimSpace risk) in
      if r = ''high'' then ''high'' else if r = ''medium'' then ''medium'' else ''low'')"

definition clampConfidence :: "float64 \<Rightarrow> float64" where
  "clampConfidence v =
     (if fless v (Finite 0) then Finite 0 else if fless (Finite 1) v then Finite 1 else v)"

definition confidenceThresholdForIntent :: "Config \<Rightarrow> Intent \<Rightarrow> float64" where
  "confidenceThresholdForIntent cfg intent =
     (if intent = IntentFix \<and> fless (Finite 0) (MinConfidence (Fix cfg))
           \<and> fle (MinConfidence (Fix cfg)) (Finite 1)
        then MinConfidence (Fix cfg)
      else if (intent = IntentFind \<or> intent = IntentRun)
           \<and> fless (Finite 0) (MinConfidence (Find cfg))
           \<and> fle (MinConfidence (Find cfg)) (Finite 1)
        then MinConfidence (Find cfg)
      else if fless (Finite 0) (AIMinConfidence (AI cfg))
           \<and> fle (AIMinConfidence (AI cfg)) (Finite 1)
        then AIMinConfidence (AI cfg)
      else Finite (roundFloat64 0.60))"

text \<open>
  The action string as the first lines of \<^verbatim>\<open>evaluateAIResolution\<close> normalize it:
  anything but run, suggest and ask becomes ask.
\<close>

definition normalizedAction :: "string \<Rightarrow> string" where
  "normalizedAction a =
     (let action = ToLower (TrimSpace a) in
      if action = ''run'' \<or> action = ''suggest'' \<or> action = ''ask'' then action else ''ask'')"

text \<open>
  \<^verbatim>\<open>evaluateAIResolution\<close>. The first argument stands for Go's \<^verbatim>\<open>%.2f\<close> formatting of a
  float in the message of the confidence rejection; \<^verbatim>\<open>%v\<close> of an error is its text.
\<close>

definition evaluateAIResolution ::
  "(float64 \<Rightarrow> string) \<Rightarrow> Intent \<Rightarrow> Config \<Rightarrow> Resolution \<Rightarrow> aiExecutionDecision" where
  "evaluateAIResolution fmt2f intent cfg resolution =
     (let action = normalizedAction (Action resolution);
          command = TrimSpace (Command resolution) in
      if action = ''ask'' then
        (if command = [] then
           zeroDecision\<lparr> Allowed := False,
             Message := ''provider requested confirmation/manual action and did not provide a runnable command'' \<rparr>
         else (case NormalizeCommand command of
             Inl err \<Rightarrow> zeroDecision\<lparr> Allowed := False,
               Message := ''provider returned invalid command: '' @ err \<rparr>
           | Inr normalized \<Rightarrow> zeroDecision\<lparr> Allowed := False, DCommand := normalized,
               Message := ''provider requested confirmation instead of an auto-runnable action'' \<rparr>))
      else if command = [] then
        zeroDecision\<lparr> Allowed := False, Message := ''provider did not return a runnable command'' \<rparr>
      else (case NormalizeCommand command of
          Inl err \<Rightarrow> zeroDecision\<lparr> Allowed := False,
            Message := ''provider returned invalid command: '' @ err \<rparr>
        | Inr normalized \<Rightarrow>
            (let confidence = clampConfidence (Confidence resolution);
                 minConfidence = confidenceThresholdForIntent cfg intent in
             if fless confidence minConfidence then
               zeroDecision\<lparr> Allowed := False, DCommand := normalized,
                 Message := ''provider confidence '' @ fmt2f confidence
                            @ '' is below threshold '' @ fmt2f minConfidence \<rparr>
             else if action = ''suggest'' \<and> \<not> AllowSuggestExecution (AI cfg) then
               zeroDecision\<lparr> Allowed := False, DCommand := normalized,
                 Message := ''provider returned suggest action and policy blocks suggest execution'' \<rparr>
             else
               (let reason = (if TrimSpace (Reason resolution) = [] then ''provider suggestion''
                              else TrimSpace (Reason resolution));
                    decision = zeroDecision\<lparr> Allowed := True, DCommand := normalized,
                      DReason := reason, RiskHint := normalizeRiskHint (Risk resolution) \<rparr>
                in if NeedsConfirmation resolution
                   then decision\<lparr> ModeOverride := ''confirm'' \<rparr> else decision))))"

subsection \<open>Facts about trimming and normalization\<close>

lemma dropWhile_rev_dropWhile:
  "dropWhile P (rev (dropWhile P (rev (dropWhile P s)))) = rev (dropWhile P (rev (dropWhile P s)))"
proof -
  define a where "a = dropWhile P s"
  define b where "b = dropWhile P (rev a)"
  have "dropWhile P (rev b) = rev b"
  proof (cases "b = []")
    case True
    then show ?thesis by simp
  next
    case False
    have "rev a = takeWhile P (rev a) @ b" by (simp add: b_def)
    then have "a = rev b @ rev (takeWhile P (rev a))"
      by (metis rev_append rev_rev_ident)
    then have "hd a = hd (rev b)" using False
      by (metis hd_append2 rev_is_Nil_conv)
    moreover have "a \<noteq> []" using False by (auto simp: b_def)
    then have "\<not> P (hd a)" unfolding a_def by (rule hd_dropWhile)
    ultimately have "\<not> P (hd (rev b))" by simp
    then show ?thesis using False
      by (metis dropWhile.simps(2) list.collapse rev_is_Nil_conv)
  qed
  then show ?thesis by (simp add: a_def b_def)
qed

lemma TrimSpace_idem: "TrimSpace (TrimSpace s) = TrimSpace s"
  unfolding TrimSpace_def
  by (simp add: dropWhile_rev_dropWhile)

lemma NormalizeCommand_TrimSpace: "NormalizeCommand (TrimSpace c) = NormalizeCommand c"
  by (simp add: NormalizeCommand_def TrimSpace_idem)

lemma normalizedAction_ask:
  "normalizedAction a = ''ask'' \<longleftrightarrow>
     ToLower (TrimSpace a) \<noteq> ''run'' \<and> ToLower (TrimSpace a) \<noteq> ''suggest''"
  by (auto simp: normalizedAction_def Let_def)

lemma in_unit_Finite:
  assumes "fless (Finite 0) v" and "fle v (Finite 1)"
  shows "\<exists>t. v = Finite t \<and> 0 < t \<and> t \<le> 1"
  using assms by (cases v) (simp_all add: fle_def)

lemma threshold_range:
  "\<exists>t. confidenceThresholdForIntent cfg intent = Finite t \<and> 0 < t \<and> t \<le> 1"
proof -
  have "0 < roundFloat64 0.60 \<and> roundFloat64 0.60 \<le> 1"
    by code_simp
  then have d: "\<exists>t. Finite (roundFloat64 0.60) = Finite t \<and> 0 < t \<and> t \<le> 1" by blast
  show ?thesis
    unfolding confidenceThresholdForIntent_def
    using in_unit_Finite[of "MinConfidence (Fix cfg)"] in_unit_Finite[of "MinConfidence (Find cfg)"]
      in_unit_Finite[of "AIMinConfidence (AI cfg)"] d
    by (simp only: split: if_split) blast
qed

lemma clamp_lt_iff:
  "0 < t \<Longrightarrow> t \<le> 1 \<Longrightarrow> fless (clampConfidence c) (Finite t) \<longleftrightarrow> fless c (Finite t)"
  by (cases c) (auto simp: clampConfidence_def)

lemma clampConfidence_idem: "clampConfidence (clampConfidence c) = clampConfidence c"
  by (cases c) (auto simp: clampConfidence_def)

lemma clampConfidence_cases:
  "clampConfidence NaN = NaN"
  "clampConfidence PosInf = Finite 1"
  "clampConfidence NegInf = Finite 0"
  "clampConfidence (Finite x) = Finite (if x < 0 then 0 else if 1 < x then 1 else x)"
  by (simp_all add: clampConfidence_def)

lemma below_threshold_rejected:
  assumes "fless (Confidence r) (confidenceThresholdForIntent cfg intent)"
  shows "\<not> Allowed (evaluateAIResolution fmt2f intent cfg r)
       \<and> Message (evaluateAIResolution fmt2f intent cfg r) \<noteq> []"
proof -
  obtain t where t: "confidenceThresholdForIntent cfg intent = Finite t" "0 < t" "t \<le> 1"
    using threshold_range[of cfg intent] by blast
  have c: "fless (clampConfidence (Confidence r)) (confidenceThresholdForIntent cfg intent)"
    using assms t by (simp add: clamp_lt_iff)
  show ?thesis
    by (cases "NormalizeCommand (TrimSpace (Command r))")
       (simp_all add: evaluateAIResolution_def zeroDecision_def Let_def c)
qed

text \<open>
  What the confidence check decides. For an action that normalizes to run or suggest
  and a command that normalizes, the decision is allowed exactly when the clamped
  confidence is not below the threshold and the action is not a suggestion that the
  policy blocks; a confidence that is a number (finite or infinite) is clamped into
  [0,1] first.
\<close>

lemma confidence_decides:
  assumes "normalizedAction (Action r) \<noteq> ''ask''"
      and "NormalizeCommand (Command r) = Inr n"
  shows "Allowed (evaluateAIResolution fmt2f intent cfg r) \<longleftrightarrow>
           \<not> fless (clampConfidence (Confidence r)) (confidenceThresholdForIntent cfg intent)
           \<and> \<not> (normalizedAction (Action r) = ''suggest'' \<and> \<not> AllowSuggestExecution (AI cfg))"
proof -
  have ne: "TrimSpace (Command r) \<noteq> []"
    using assms(2) by (auto simp: NormalizeCommand_def Let_def split: if_splits)
  have n: "NormalizeCommand (TrimSpace (Command r)) = Inr n"
    using assms(2) by (simp add: NormalizeCommand_TrimSpace)
  show ?thesis
    using assms(1) ne n
    by (simp add: evaluateAIResolution_def zeroDecision_def Let_def)
qed

lemma clamp_number_range:
  assumes "c \<noteq> NaN"
  shows "\<exists>x. clampConfidence c = Finite x \<and> 0 \<le> x \<and> x \<le> 1
           \<and> (fless (Finite 1) c \<longrightarrow> x = 1) \<and> (fless c (Finite 0) \<longrightarrow> x = 0)
           \<and> (\<not> fless (Finite 1) c \<and> \<not> fless c (Finite 0) \<longrightarrow> c = Finite x)"
  using assms by (cases c) (auto simp: clampConfidence_def)

subsection \<open>Claims about the policy engine\<close>

text \<open>
  C2. Whenever the action of a provider resolution normalizes to ask, that is whenever
  its trimmed, lower-cased action string is neither run nor suggest (the empty string
  and every unrecognized string included), \<open>evaluateAIResolution\<close> returns a decision
  that is not allowed and carries a non-empty message. If the resolution's command
  normalizes successfully, the decision carries the normalized command (as a suggestion
  only, since the decision is not allowed); otherwise it carries no command.
\<close>

theorem ask_never_allowed:
  assumes "ToLower (TrimSpace (Action r)) \<noteq> ''run''"
      and "ToLower (TrimSpace (Action r)) \<noteq> ''suggest''"
  shows "\<not> Allowed (evaluateAIResolution fmt2f intent cfg r)
     \<and> Message (evaluateAIResolution fmt2f intent cfg r) \<noteq> []
     \<and> (case NormalizeCommand (Command r) of
           Inr n \<Rightarrow> DCommand (evaluateAIResolution fmt2f intent cfg r) = n
         | Inl e \<Rightarrow> DCommand (evaluateAIResolution fmt2f intent cfg r) = [])"
proof -
  have a: "normalizedAction (Action r) = ''ask''"
    using assms by (simp add: normalizedAction_ask)
  show ?thesis
  proof (cases "TrimSpace (Command r) = []")
    case True
    then have "NormalizeCommand (Command r) = Inl ''command cannot be empty''"
      by (simp add: NormalizeCommand_def)
    then show ?thesis using a True
      by (simp add: evaluateAIResolution_def zeroDecision_def)
  next
    case False
    then show ?thesis using a
      by (cases "NormalizeCommand (Command r)")
         (simp_all add: evaluateAIResolution_def zeroDecision_def NormalizeCommand_TrimSpace)
  qed
qed

text \<open>
  The test \<^verbatim>\<open>TestEvaluateAIResolutionAskNeverExecutes\<close>: action ask with the command
  \<^verbatim>\<open>ls -la\<close> and confidence 0.99 is blocked, and the command comes back as a suggestion.
\<close>

theorem ask_never_allowed_witness:
  "\<not> Allowed (evaluateAIResolution (\<lambda>x. []) IntentFix Default
       \<lparr> Action = ''ask'', Command = ''ls -la'', Reason = ''need your review'', Risk = [],
         Confidence = Finite (roundFloat64 0.99), NeedsConfirmation = False \<rparr>)
   \<and> DCommand (evaluateAIResolution (\<lambda>x. []) IntentFix Default
       \<lparr> Action = ''ask'', Command = ''ls -la'', Reason = ''need your review'', Risk = [],
         Confidence = Finite (roundFloat64 0.99), NeedsConfirmation = False \<rparr>) = ''ls -la''"
proof -
  let ?r = "\<lparr> Action = ''ask'', Command = ''ls -la'', Reason = ''need your review'', Risk = [],
         Confidence = Finite (roundFloat64 0.99), NeedsConfirmation = False \<rparr>"
  have h1: "ToLower (TrimSpace (Action ?r)) \<noteq> ''run''" by code_simp
  have h2: "ToLower (TrimSpace (Action ?r)) \<noteq> ''suggest''" by code_simp
  have n: "NormalizeCommand (Command ?r) = Inr ''ls -la''" by code_simp
  show ?thesis
    using ask_never_allowed[OF h1 h2, of "\<lambda>x. []" IntentFix Default] n by simp
qed

text \<open>
  C4 (as amended). The threshold is the intent's own \<open>min_confidence\<close> (fix for the Fix
  intent, find for Find and Run) when that value lies in (0,1]; otherwise it is
  \<open>ai.min_confidence\<close> when that lies in (0,1]; otherwise 0.60. The threshold therefore
  always lies in (0,1], and 0.60 is the last fallback rather than a floor. Every
  resolution whose confidence is below the threshold is rejected with a message.
  The comparisons are those of \<^verbatim>\<open>float64\<close>: a configured value that is not a number is
  not in (0,1], and the threshold is always a finite number.
\<close>

theorem confidence_threshold_by_intent:
  "(intent = IntentFix \<and> fless (Finite 0) (MinConfidence (Fix cfg))
        \<and> fle (MinConfidence (Fix cfg)) (Finite 1)
      \<longrightarrow> confidenceThresholdForIntent cfg intent = MinConfidence (Fix cfg))
   \<and> ((intent = IntentFind \<or> intent = IntentRun)
        \<and> fless (Finite 0) (MinConfidence (Find cfg)) \<and> fle (MinConfidence (Find cfg)) (Finite 1)
      \<longrightarrow> confidenceThresholdForIntent cfg intent = MinConfidence (Find cfg))
   \<and> (\<not> (intent = IntentFix \<and> fless (Finite 0) (MinConfidence (Fix cfg))
              \<and> fle (MinConfidence (Fix cfg)) (Finite 1))
        \<and> \<not> ((intent = IntentFind \<or> intent = IntentRun)
              \<and> fless (Finite 0) (MinConfidence (Find cfg))
              \<and> fle (MinConfidence (Find cfg)) (Finite 1))
      \<longrightarrow> confidenceThresholdForIntent cfg intent =
            (if fless (Finite 0) (AIMinConfidence (AI cfg)) \<and> fle (AIMinConfidence (AI cfg)) (Finite 1)
             then AIMinConfidence (AI cfg) else Finite (roundFloat64 0.60)))
   \<and> (\<exists>t. confidenceThresholdForIntent cfg intent = Finite t \<and> 0 < t \<and> t \<le> 1)
   \<and> (fless (Confidence r) (confidenceThresholdForIntent cfg intent)
      \<longrightarrow> \<not> Allowed (evaluateAIResolution fmt2f intent cfg r)
          \<and> Message (evaluateAIResolution fmt2f intent cfg r) \<noteq> [])"
proof -
  have sel: "intent = IntentFix \<and> fless (Finite 0) (MinConfidence (Fix cfg))
        \<and> fle (MinConfidence (Fix cfg)) (Finite 1)
      \<longrightarrow> confidenceThresholdForIntent cfg intent = MinConfidence (Fix cfg)"
    by (simp add: confidenceThresholdForIntent_def)
  have sel2: "(intent = IntentFind \<or> intent = IntentRun)
        \<and> fless (Finite 0) (MinConfidence (Find cfg)) \<and> fle (MinConfidence (Find cfg)) (Finite 1)
      \<longrightarrow> confidenceThresholdForIntent cfg intent = MinConfidence (Find cfg)"
    by (auto simp: confidenceThresholdForIntent_def IntentFix_def IntentFind_def IntentRun_def)
  have sel3: "\<not> (intent = IntentFix \<and> fless (Finite 0) (MinConfidence (Fix cfg))
              \<and> fle (MinConfidence (Fix cfg)) (Finite 1))
        \<and> \<not> ((intent = IntentFind \<or> intent = IntentRun)
              \<and> fless (Finite 0) (MinConfidence (Find cfg))
              \<and> fle (MinConfidence (Find cfg)) (Finite 1))
      \<longrightarrow> confidenceThresholdForIntent cfg intent =
            (if fless (Finite 0) (AIMinConfidence (AI cfg)) \<and> fle (AIMinConfidence (AI cfg)) (Finite 1)
             then AIMinConfidence (AI cfg) else Finite (roundFloat64 0.60))"
    by (auto simp: confidenceThresholdForIntent_def)
  show ?thesis
    using sel sel2 sel3 threshold_range[of cfg intent]
      below_threshold_rejected[of r cfg intent fmt2f]
    by blast
qed

text \<open>
  Scenario 3 of the specification: \<open>fix.min_confidence = 0.80\<close>, the provider answers
  run \<^verbatim>\<open>git status\<close> with confidence 0.50.
\<close>

theorem confidence_threshold_by_intent_witness:
  "confidenceThresholdForIntent (Default\<lparr> Fix := \<lparr> MinConfidence = Finite (roundFloat64 0.80) \<rparr> \<rparr>)
       IntentFix
     = Finite (roundFloat64 0.80)
   \<and> \<not> Allowed (evaluateAIResolution (\<lambda>x. []) IntentFix
         (Default\<lparr> Fix := \<lparr> MinConfidence = Finite (roundFloat64 0.80) \<rparr> \<rparr>)
       \<lparr> Action = ''run'', Command = ''git status'', Reason = ''low confidence'', Risk = [],
         Confidence = Finite 0.50, NeedsConfirmation = False \<rparr>)
   \<and> Message (evaluateAIResolution (\<lambda>x. []) IntentFix
         (Default\<lparr> Fix := \<lparr> MinConfidence = Finite (roundFloat64 0.80) \<rparr> \<rparr>)
       \<lparr> Action = ''run'', Command = ''git status'', Reason = ''low confidence'', Risk = [],
         Confidence = Finite 0.50, NeedsConfirmation = False \<rparr>) \<noteq> []"
proof -
  have r: "0 < roundFloat64 0.80" "roundFloat64 0.80 \<le> 1" "0.50 < roundFloat64 0.80"
    by code_simp+
  show ?thesis
    using confidence_threshold_by_intent[of IntentFix
        "Default\<lparr> Fix := \<lparr> MinConfidence = Finite (roundFloat64 0.80) \<rparr> \<rparr>"
        "\<lparr> Action = ''run'', Command = ''git status'', Reason = ''low confidence'', Risk = [],
           Confidence = Finite 0.50, NeedsConfirmation = False \<rparr>" "\<lambda>x. []"] r
    by (simp add: Default_def fle_def)
qed

text \<open>
  The claim as stated fails: with \<open>fix.min_confidence = 0.20\<close>, a value the configuration
  accepts, the threshold for the Fix intent is 0.20, below 0.60.
\<close>

theorem confidence_floor_counterexample:
  "confidenceThresholdForIntent (Default\<lparr> Fix := \<lparr> MinConfidence = Finite (roundFloat64 0.20) \<rparr> \<rparr>)
       IntentFix
     = Finite (roundFloat64 0.20)
   \<and> fless (Finite (roundFloat64 0.20)) (Finite (roundFloat64 0.60))"
proof -
  have r: "0 < roundFloat64 0.20" "roundFloat64 0.20 \<le> 1" "roundFloat64 0.20 < roundFloat64 0.60"
    by code_simp+
  show ?thesis
    using r by (simp add: confidenceThresholdForIntent_def Default_def fle_def)
qed

text \<open>
  C10. The claim says that the policy engine compares the threshold with the confidence
  clamped into [0,1]. The code does so for every confidence that is a number
  (\<open>confidence_decides\<close>, \<open>clamp_number_range\<close>), but \<open>clampConfidence\<close> tests \<open>v < 0\<close> and
  \<open>v > 1\<close> only, and both are false of a NaN: the NaN is returned as it is, the test
  \<open>confidence < minConfidence\<close> is false as well, and the command is allowed to run
  whatever the threshold, for every configuration and intent. The loose decoder of the
  provider's reply reads a confidence written as the string \<^verbatim>\<open>"NaN"\<close> with
  \<^verbatim>\<open>strconv.ParseFloat\<close>, which returns a NaN, so such a resolution reaches the policy
  engine.
\<close>

theorem nan_confidence_is_allowed:
  "clampConfidence NaN = NaN
   \<and> Allowed (evaluateAIResolution fmt2f intent cfg
       \<lparr> Action = ''run'', Command = ''git status'', Reason = ''status'', Risk = ''low'',
         Confidence = NaN, NeedsConfirmation = False \<rparr>)"
proof -
  let ?r = "\<lparr> Action = ''run'', Command = ''git status'', Reason = ''status'', Risk = ''low'',
         Confidence = NaN, NeedsConfirmation = False \<rparr>"
  have a: "normalizedAction (Action ?r) = ''run''" by code_simp
  have n: "NormalizeCommand (Command ?r) = Inr ''git status''" by code_simp
  have c: "clampConfidence NaN = NaN" by (simp add: clampConfidence_def)
  have "Allowed (evaluateAIResolution fmt2f intent cfg ?r)"
    using confidence_decides[of ?r "''git status''" fmt2f intent cfg] a n c by simp
  then show ?thesis using c by simp
qed


section \<open>The safety classifier\<close>

text \<open>
  The predicates of the command-line front end that classify a query and a command, and
  \<^verbatim>\<open>HighRisk\<close> of package runtime. \<open>containsAny\<close> lower-cases each pattern before the
  search, as the source does; \<open>writeRedirectionFrom\<close> is the loop of
  \<^verbatim>\<open>hasWriteRedirection\<close> with its three state variables as arguments.
\<close>

definition queryAllowsDestructive :: "string \<Rightarrow> bool" where
  "queryAllowsDestructive query =
     (let low = ToLower (TrimSpace query) in
      containsAnyOf low [''delete'', ''remove'', ''destroy'', ''drop'', ''purge'', ''wipe'',
        ''uninstall'', ''terminate'', ''kill'', ''prune'']
      \<or> containsAnyOf low [''hard reset'', ''reset --hard'', ''delete all'', ''remove all'',
        ''clean branch completely''])"

definition queryAllowsHighRisk :: "string \<Rightarrow> bool" where
  "queryAllowsHighRisk query =
     (let low = ToLower (TrimSpace query) in
      containsAnyOf low [''rm -rf'', ''mkfs'', ''dd if='', ''format disk'', ''wipe disk'',
        ''destroy all data'', ''delete everything'', ''factory reset'', ''chmod 777 /''])"

definition isDestructiveCommand :: "string \<Rightarrow> bool" where
  "isDestructiveCommand command =
     (let low = ToLower (TrimSpace command) in
      containsAnyOf low [''rm '', ''rmdir '', ''git clean '', ''git reset --hard'',
        ''git checkout --'', ''git worktree remove'', ''dropdb '', ''kubectl delete '',
        ''terraform destroy'', ''docker system prune''])"

definition HighRisk :: "string \<Rightarrow> bool" where
  "HighRisk command =
     (let low = ToLower (TrimSpace command) in
      containsAnyOf low [''rm -rf'', ''mkfs'', ''dd if='', ''shutdown'', ''reboot'', ''userdel'',
        ''chmod 777 /''])"

definition containsAny :: "string \<Rightarrow> string list \<Rightarrow> bool" where
  "containsAny low patterns = list_ex (\<lambda>pattern. Contains low (ToLower pattern)) patterns"

definition queryPrefersReadOnly :: "string \<Rightarrow> bool" where
  "queryPrefersReadOnly query =
     (let low = ToLower (TrimSpace query) in
      if low = [] then False
      else if containsAny low [''set '', ''change '', ''update '', ''write '', ''append '',
          ''add '', ''create '', ''edit '', ''modify '', ''remove '', ''delete '', ''install '',
          ''enable '', ''disable '', ''export '', ''replace '', ''fix '', ''run '', ''execute '',
          ''copy '', ''move '', ''rename '', ''clone '', ''download '', ''upload '']
        then False
      else containsAny low [''path '', ''path to'', ''where is'', ''where'' @ [CHR 0x27] @ ''s'',
          ''locate '', ''show '', ''list '', ''print '', ''display '', ''what is'', ''check '',
          ''view '', ''find ''])"

fun writeRedirectionFrom :: "bool \<Rightarrow> bool \<Rightarrow> bool \<Rightarrow> string \<Rightarrow> bool" where
  "writeRedirectionFrom inSingle inDouble escaped [] = False"
| "writeRedirectionFrom inSingle inDouble escaped (ch # rest) =
     (if escaped then writeRedirectionFrom inSingle inDouble False rest
      else if ch = CHR 0x5C \<and> \<not> inSingle then writeRedirectionFrom inSingle inDouble True rest
      else if ch = CHR 0x27 \<and> \<not> inDouble then writeRedirectionFrom (\<not> inSingle) inDouble False rest
      else if ch = CHR 0x22 \<and> \<not> inSingle then writeRedirectionFrom inSingle (\<not> inDouble) False rest
      else if inSingle \<or> inDouble then writeRedirectionFrom inSingle inDouble False rest
      else if ch \<noteq> CHR ''>'' then writeRedirectionFrom inSingle inDouble False rest
      else (let next = (case rest of [] \<Rightarrow> CHR 0x00 | n # _ \<Rightarrow> n) in
            if next = CHR ''&'' then writeRedirectionFrom inSingle inDouble False rest
            else True))"

definition hasWriteRedirection :: "string \<Rightarrow> bool" where
  "hasWriteRedirection command = writeRedirectionFrom False False False command"

definition isMutatingCommand :: "string \<Rightarrow> bool" where
  "isMutatingCommand command =
     (let low = ToLower (TrimSpace command) in
      if low = [] then False
      else if HasPrefix low ''. '' then True
      else if Contains low ''>>'' \<or> Contains low ''>|'' \<or> Contains low '' > ''
              \<or> hasWriteRedirection low then True
      else if HasPrefix low ''tee '' \<or> Contains low ''| tee '' \<or> Contains low '' tee -a '' then True
      else containsAnyOf low [''sed -i'', ''perl -i'', ''truncate '', ''rm '', ''rmdir '', ''mv '',
        ''cp '', ''touch '', ''chmod '', ''chown '', ''mkdir '', ''ln -s '', ''ln '', ''source '',
        ''export '', ''alias '', ''unalias '', ''cd '', ''pushd '', ''popd '', ''git commit'',
        ''git push'', ''git reset'', ''git checkout -b'', ''git branch -d'', ''git branch -D''])"

definition commandAllowedForQuery :: "string \<Rightarrow> string \<Rightarrow> bool" where
  "commandAllowedForQuery query command =
     (let trimmed = TrimSpace command in
      if trimmed = [] then False
      else if queryPrefersReadOnly query \<and> isMutatingCommand trimmed then False
      else (let allowDestructive = queryAllowsDestructive query;
                allowHighRisk = queryAllowsHighRisk query in
            if HighRisk trimmed \<and> \<not> allowHighRisk then False
            else if isDestructiveCommand trimmed \<and> \<not> allowDestructive then False
            else True))"

definition applyExecutionRiskPolicy :: "Config \<Rightarrow> string \<Rightarrow> string \<Rightarrow> string \<Rightarrow> string \<times> string" where
  "applyExecutionRiskPolicy cfg mode command riskHint =
     (let effectiveMode0 = ToLower (TrimSpace mode);
          effectiveMode = (if effectiveMode0 = [] then ''confirm'' else effectiveMode0);
          risk0 = normalizeRiskHint riskHint;
          isHighRiskCommand = HighRisk command;
          isDestructive = isDestructiveCommand command;
          risk = (if (isHighRiskCommand \<or> isDestructive) \<and> BlockHighRisk (Safety cfg) then ''high''
                  else if (isHighRiskCommand \<or> isDestructive) \<and> risk0 = ''low'' then ''medium''
                  else if isMutatingCommand command \<and> risk0 = ''low'' then ''medium''
                  else risk0)
      in if effectiveMode = ''yolo'' \<and> \<not> AllowYoloHighRisk (Safety cfg)
            \<and> (risk = ''high'' \<or> (BlockHighRisk (Safety cfg) \<and> (isHighRiskCommand \<or> isDestructive)))
         then (''confirm'', risk) else (effectiveMode, risk))"

text \<open>
  \<^verbatim>\<open>strings.FieldsFunc\<close>, \<^verbatim>\<open>strings.Fields\<close> and \<^verbatim>\<open>strings.Trim\<close>. \<open>fieldsFrom\<close>
  carries the field being read, reversed.
\<close>

fun fieldsFrom :: "(char \<Rightarrow> bool) \<Rightarrow> string \<Rightarrow> string \<Rightarrow> string list" where
  "fieldsFrom f [] cur = (if cur = [] then [] else [rev cur])"
| "fieldsFrom f (c # cs) cur =
     (if f c then (if cur = [] then fieldsFrom f cs [] else rev cur # fieldsFrom f cs [])
      else fieldsFrom f cs (c # cur))"

definition FieldsFunc :: "string \<Rightarrow> (char \<Rightarrow> bool) \<Rightarrow> string list" where
  "FieldsFunc s f = fieldsFrom f s []"

definition Fields :: "string \<Rightarrow> string list" where
  "Fields s = FieldsFunc s isSpace"

definition Trim :: "string \<Rightarrow> string \<Rightarrow> string" where
  "Trim s cutset =
     rev (dropWhile (\<lambda>c. c \<in> set cutset) (rev (dropWhile (\<lambda>c. c \<in> set cutset) s)))"

text \<open>
  The separator function that every tokenizer of the program passes to
  \<^verbatim>\<open>FieldsFunc\<close>, and the cut set \<^verbatim>\<open>"'.,!?;:()[]{}<>\<close> of their \<^verbatim>\<open>strings.Trim\<close>.
\<close>

definition isTokenSeparator :: "char \<Rightarrow> bool" where
  "isTokenSeparator r = (r = CHR '' '' \<or> r = CHR 0x09 \<or> r = CHR 0x0A \<or> r = CHR ''-''
     \<or> r = CHR ''_'' \<or> r = CHR '':'' \<or> r = CHR ''/'')"

definition punctCutset :: string where
  "punctCutset = [CHR 0x22, CHR 0x27] @ ''.,!?;:()[]{}<>''"

text \<open>
  The token loop shared in shape by \<^verbatim>\<open>queryRelevanceTokens\<close>, \<^verbatim>\<open>memorySignalTokens\<close>
  and \<^verbatim>\<open>memory.splitTokens\<close>: clean the part, skip it when shorter than the minimum,
  when a stop word, or when seen before, else append it. The map \<^verbatim>\<open>seen\<close> of the
  source holds exactly the tokens appended to \<^verbatim>\<open>out\<close>, so membership in \<open>out\<close> stands
  for it.
\<close>

fun tokenLoop :: "(string \<Rightarrow> string) \<Rightarrow> nat \<Rightarrow> string list \<Rightarrow> string list \<Rightarrow> string list \<Rightarrow> string list" where
  "tokenLoop clean minLen stopwords [] out = out"
| "tokenLoop clean minLen stopwords (part # parts) out =
     (let token = clean part in
      if length token < minLen then tokenLoop clean minLen stopwords parts out
      else if token \<in> set stopwords then tokenLoop clean minLen stopwords parts out
      else if token \<in> set out then tokenLoop clean minLen stopwords parts out
      else tokenLoop clean minLen stopwords parts (out @ [token]))"

definition queryRelevanceTokens :: "string \<Rightarrow> string list" where
  "queryRelevanceTokens query =
     (let stopwords = [''the'', ''for'', ''and'', ''with'', ''from'', ''into'', ''onto'', ''that'',
            ''this'', ''you'', ''your'', ''can'', ''could'', ''how'', ''what'', ''when'', ''where'',
            ''why'', ''are'', ''is'', ''to'', ''me'', ''my'', ''find'', ''search'', ''show'',
            ''list'', ''please'', ''help'', ''command'', ''commands'', ''run'', ''execute'',
            ''file'', ''files'', ''path'', ''paths'', ''location'', ''locate''];
          parts = FieldsFunc (ToLower (TrimSpace query)) isTokenSeparator
      in tokenLoop (\<lambda>part. Trim (TrimSpace part) punctCutset) 3 stopwords parts [])"

definition countSignalTokens :: "string \<Rightarrow> nat" where
  "countSignalTokens query = length (queryRelevanceTokens query)"

definition minimumHistoryMatchScore :: "string \<Rightarrow> real" where
  "minimumHistoryMatchScore query =
     (let tokenCount = length (queryRelevanceTokens query) in
      if tokenCount \<ge> 4 then 8.0 else if tokenCount \<ge> 2 then 7.0 else 6.0)"

text \<open>\<^verbatim>\<open>history.Match\<close>; its fields carry the prefix M.\<close>

record HMatch =
  MCommand :: string
  MScore :: real
  MSource :: string
  MTimestamp :: string

text \<open>
  \<^verbatim>\<open>filterFindMatches\<close>: the body of the loop decides, by its chain of \<^verbatim>\<open>continue\<close>
  statements, whether a match is kept.
\<close>

definition keepFindMatch :: "bool \<Rightarrow> bool \<Rightarrow> bool \<Rightarrow> real \<Rightarrow> HMatch \<Rightarrow> bool" where
  "keepFindMatch allowDestructive allowHighRisk readOnly minScore match =
     (let command = TrimSpace (MCommand match) in
      if command = [] then False
      else if MScore match < minScore then False
      else if readOnly \<and> isMutatingCommand command then False
      else if HighRisk command \<and> \<not> allowHighRisk then False
      else if isDestructiveCommand command \<and> \<not> allowDestructive then False
      else True)"

definition filterFindMatches :: "string \<Rightarrow> HMatch list \<Rightarrow> HMatch list" where
  "filterFindMatches query matches =
     (if matches = [] then matches
      else filter (keepFindMatch (queryAllowsDestructive query) (queryAllowsHighRisk query)
                     (queryPrefersReadOnly query) (minimumHistoryMatchScore query)) matches)"

subsection \<open>Claims about the safety filter and the risk policy\<close>

lemma isMutatingCommand_TrimSpace: "isMutatingCommand (TrimSpace c) = isMutatingCommand c"
  by (simp add: isMutatingCommand_def TrimSpace_idem)

lemma HighRisk_TrimSpace: "HighRisk (TrimSpace c) = HighRisk c"
  by (simp add: HighRisk_def TrimSpace_idem)

lemma isDestructiveCommand_TrimSpace: "isDestructiveCommand (TrimSpace c) = isDestructiveCommand c"
  by (simp add: isDestructiveCommand_def TrimSpace_idem)

text \<open>
  C1. \<open>commandAllowedForQuery\<close> allows a command exactly when it is non-empty after
  trimming, it is not a mutating command under a query that prefers read-only, it is not
  a high-risk command under a query that does not allow high risk, and it is not a
  destructive command under a query that does not allow destructive commands. In
  particular a mutating command is never allowed for a read-only query. The filter over
  history matches, \<open>filterFindMatches\<close>, keeps exactly the matches whose command is
  allowed in this sense and whose score reaches the minimum score of the query.
\<close>

theorem command_allowed_iff:
  "(commandAllowedForQuery q cmd \<longleftrightarrow>
      TrimSpace cmd \<noteq> []
      \<and> \<not> (queryPrefersReadOnly q \<and> isMutatingCommand cmd)
      \<and> \<not> (HighRisk cmd \<and> \<not> queryAllowsHighRisk q)
      \<and> \<not> (isDestructiveCommand cmd \<and> \<not> queryAllowsDestructive q))
   \<and> (queryPrefersReadOnly q \<and> isMutatingCommand cmd \<longrightarrow> \<not> commandAllowedForQuery q cmd)
   \<and> filterFindMatches q ms =
       filter (\<lambda>m. commandAllowedForQuery q (MCommand m) \<and> minimumHistoryMatchScore q \<le> MScore m) ms"
proof -
  have a: "commandAllowedForQuery q c \<longleftrightarrow>
      TrimSpace c \<noteq> []
      \<and> \<not> (queryPrefersReadOnly q \<and> isMutatingCommand c)
      \<and> \<not> (HighRisk c \<and> \<not> queryAllowsHighRisk q)
      \<and> \<not> (isDestructiveCommand c \<and> \<not> queryAllowsDestructive q)" for c
    by (auto simp: commandAllowedForQuery_def Let_def isMutatingCommand_TrimSpace
        HighRisk_TrimSpace isDestructiveCommand_TrimSpace)
  have k: "keepFindMatch (queryAllowsDestructive q) (queryAllowsHighRisk q)
             (queryPrefersReadOnly q) (minimumHistoryMatchScore q) m
           \<longleftrightarrow> commandAllowedForQuery q (MCommand m) \<and> minimumHistoryMatchScore q \<le> MScore m" for m
    unfolding a
    by (auto simp: keepFindMatch_def Let_def isMutatingCommand_TrimSpace
        HighRisk_TrimSpace isDestructiveCommand_TrimSpace)
  have f: "filterFindMatches q ms =
       filter (\<lambda>m. commandAllowedForQuery q (MCommand m) \<and> minimumHistoryMatchScore q \<le> MScore m) ms"
  proof -
    have "keepFindMatch (queryAllowsDestructive q) (queryAllowsHighRisk q)
             (queryPrefersReadOnly q) (minimumHistoryMatchScore q)
          = (\<lambda>m. commandAllowedForQuery q (MCommand m) \<and> minimumHistoryMatchScore q \<le> MScore m)"
      using k by blast
    then show ?thesis by (simp add: filterFindMatches_def)
  qed
  show ?thesis using a[of cmd] f by blast
qed

text \<open>
  Scenario 2 of the specification: for the query \<^verbatim>\<open>path to .zshrc\<close> the candidate
  \<^verbatim>\<open>echo ~/.zshrc\<close> survives and the candidate that appends to the file does not.
\<close>

theorem command_allowed_iff_witness:
  "commandAllowedForQuery ''path to .zshrc'' ''echo ~/.zshrc''
   \<and> \<not> commandAllowedForQuery ''path to .zshrc'' ''echo x >> ~/.zshrc''"
proof -
  have r: "queryPrefersReadOnly ''path to .zshrc''" by code_simp
  have m: "isMutatingCommand ''echo x >> ~/.zshrc''" by code_simp
  have a: "TrimSpace ''echo ~/.zshrc'' \<noteq> []" "\<not> isMutatingCommand ''echo ~/.zshrc''"
    "\<not> HighRisk ''echo ~/.zshrc''" "\<not> isDestructiveCommand ''echo ~/.zshrc''"
    by code_simp+
  show ?thesis
    using command_allowed_iff[of "''path to .zshrc''" "''echo ~/.zshrc''"]
      command_allowed_iff[of "''path to .zshrc''" "''echo x >> ~/.zshrc''"] r m a
    by blast
qed

lemma normalizeRiskHint_cases:
  "normalizeRiskHint h = ''low'' \<or> normalizeRiskHint h = ''medium'' \<or> normalizeRiskHint h = ''high''"
  by (simp add: normalizeRiskHint_def Let_def)

text \<open>
  C5. The effective risk is high when the command is high-risk or destructive and
  \<open>block_high_risk\<close> is set; otherwise medium when the command is high-risk or destructive
  and the hinted risk is low; otherwise medium when the command is mutating and the
  hinted risk is low; otherwise the normalized hint. The mode is downgraded to confirm
  exactly when it is yolo, \<open>allow_yolo_high_risk\<close> is not set, and the risk is high or
  \<open>block_high_risk\<close> holds for a high-risk or destructive command; otherwise it is the
  given mode (confirm when empty). With the default configuration, mode yolo and the
  candidate \<^verbatim>\<open>git reset --hard\<close> give mode confirm and risk high.
\<close>

theorem execution_risk_policy:
  "snd (applyExecutionRiskPolicy cfg mode cmd hint) =
     (if (HighRisk cmd \<or> isDestructiveCommand cmd) \<and> BlockHighRisk (Safety cfg) then ''high''
      else if (HighRisk cmd \<or> isDestructiveCommand cmd) \<and> normalizeRiskHint hint = ''low''
        then ''medium''
      else if isMutatingCommand cmd \<and> normalizeRiskHint hint = ''low'' then ''medium''
      else normalizeRiskHint hint)
   \<and> (ToLower (TrimSpace mode) = ''yolo'' \<and> \<not> AllowYoloHighRisk (Safety cfg)
        \<and> (snd (applyExecutionRiskPolicy cfg mode cmd hint) = ''high''
           \<or> (BlockHighRisk (Safety cfg) \<and> (HighRisk cmd \<or> isDestructiveCommand cmd)))
      \<longrightarrow> fst (applyExecutionRiskPolicy cfg mode cmd hint) = ''confirm'')
   \<and> (\<not> (ToLower (TrimSpace mode) = ''yolo'' \<and> \<not> AllowYoloHighRisk (Safety cfg)
        \<and> (snd (applyExecutionRiskPolicy cfg mode cmd hint) = ''high''
           \<or> (BlockHighRisk (Safety cfg) \<and> (HighRisk cmd \<or> isDestructiveCommand cmd))))
      \<longrightarrow> fst (applyExecutionRiskPolicy cfg mode cmd hint) =
            (if ToLower (TrimSpace mode) = [] then ''confirm'' else ToLower (TrimSpace mode)))
   \<and> applyExecutionRiskPolicy Default ''yolo'' ''git reset --hard'' ''low'' = (''confirm'', ''high'')"
proof -
  have ex: "applyExecutionRiskPolicy Default ''yolo'' ''git reset --hard'' ''low'' = (''confirm'', ''high'')"
    by code_simp
  have risk: "snd (applyExecutionRiskPolicy cfg mode cmd hint) =
     (if (HighRisk cmd \<or> isDestructiveCommand cmd) \<and> BlockHighRisk (Safety cfg) then ''high''
      else if (HighRisk cmd \<or> isDestructiveCommand cmd) \<and> normalizeRiskHint hint = ''low''
        then ''medium''
      else if isMutatingCommand cmd \<and> normalizeRiskHint hint = ''low'' then ''medium''
      else normalizeRiskHint hint)"
    by (simp add: applyExecutionRiskPolicy_def Let_def)
  have mode: "fst (applyExecutionRiskPolicy cfg mode cmd hint) =
     (if ToLower (TrimSpace mode) = ''yolo'' \<and> \<not> AllowYoloHighRisk (Safety cfg)
        \<and> (snd (applyExecutionRiskPolicy cfg mode cmd hint) = ''high''
           \<or> (BlockHighRisk (Safety cfg) \<and> (HighRisk cmd \<or> isDestructiveCommand cmd)))
      then ''confirm''
      else if ToLower (TrimSpace mode) = [] then ''confirm'' else ToLower (TrimSpace mode))"
    unfolding risk by (simp add: applyExecutionRiskPolicy_def Let_def)
  show ?thesis
    using ex risk mode by presburger
qed

text \<open>
  The tests on a provider-reported high risk (yolo is downgraded) and on a redirection
  with a low hint (the risk becomes medium).
\<close>

theorem execution_risk_policy_witness:
  "applyExecutionRiskPolicy Default ''yolo'' ''git status'' ''high'' = (''confirm'', ''high'')
   \<and> applyExecutionRiskPolicy Default ''confirm'' ''echo hi >/tmp/demo-file'' ''low''
       = (''confirm'', ''medium'')"
proof -
  have y: "ToLower (TrimSpace ''yolo'') = ''yolo''" "ToLower (TrimSpace ''confirm'') = ''confirm''"
    by code_simp+
  have c1: "\<not> HighRisk ''git status''" "\<not> isDestructiveCommand ''git status''"
    "normalizeRiskHint ''high'' = ''high''"
    by code_simp+
  have c2: "\<not> HighRisk ''echo hi >/tmp/demo-file''" "\<not> isDestructiveCommand ''echo hi >/tmp/demo-file''"
    "isMutatingCommand ''echo hi >/tmp/demo-file''" "normalizeRiskHint ''low'' = ''low''"
    by code_simp+
  have d: "BlockHighRisk (Safety Default)" "\<not> AllowYoloHighRisk (Safety Default)"
    by (simp_all add: Default_def)
  have "fst (applyExecutionRiskPolicy Default ''yolo'' ''git status'' ''high'') = ''confirm''
      \<and> snd (applyExecutionRiskPolicy Default ''yolo'' ''git status'' ''high'') = ''high''"
    using execution_risk_policy[of Default "''yolo''" "''git status''" "''high''"] y c1 d
    by simp
  moreover have "fst (applyExecutionRiskPolicy Default ''confirm'' ''echo hi >/tmp/demo-file'' ''low'') = ''confirm''
      \<and> snd (applyExecutionRiskPolicy Default ''confirm'' ''echo hi >/tmp/demo-file'' ''low'') = ''medium''"
    using execution_risk_policy[of Default "''confirm''" "''echo hi >/tmp/demo-file''" "''low''"] y c2 d
    by simp
  ultimately show ?thesis by (simp add: prod_eq_iff)
qed

section \<open>Compatibility of a query with a remembered query\<close>

text \<open>
  \<^verbatim>\<open>normalizeComparableCommand\<close> trims and lower-cases, then removes trailing
  backslashes one at a time, trimming after each; the loop is \<open>stripTrailingBackslashes\<close>.
  \<^verbatim>\<open>reDigits.FindAllString(s, -1)\<close> with the pattern \<^verbatim>\<open>\d+\<close> returns the maximal runs
  of ASCII digits in order: \<open>findAllDigits\<close>. The loop of \<^verbatim>\<open>memoryNumericTokens\<close>
  (trim, skip the empty token, skip a token seen before) is the token loop with minimum
  length 1 and no stop words; \<^verbatim>\<open>sort.Strings\<close> sorts in byte order.
\<close>

lemma length_TrimSpace_le: "length (TrimSpace s) \<le> length s"
proof -
  have "length (dropWhile isSpace (rev (dropWhile isSpace s))) \<le> length (rev (dropWhile isSpace s))"
    by (rule length_dropWhile_le)
  also have "\<dots> \<le> length s" by (simp add: length_dropWhile_le)
  finally show ?thesis by (simp add: TrimSpace_def)
qed

function stripTrailingBackslashes :: "string \<Rightarrow> string" where
  "stripTrailingBackslashes normalized =
     (if HasSuffix normalized [CHR 0x5C]
      then stripTrailingBackslashes (TrimSpace (TrimSuffix normalized [CHR 0x5C]))
      else normalized)"
  by pat_completeness auto
termination
proof (relation "measure length")
  show "wf (measure length)" by simp
next
  fix normalized :: string
  assume h: "HasSuffix normalized [CHR 0x5C]"
  then have "length (TrimSuffix normalized [CHR 0x5C]) < length normalized"
    by (auto simp: TrimSuffix_def HasSuffix_def)
  moreover have "length (TrimSpace (TrimSuffix normalized [CHR 0x5C])) \<le> length (TrimSuffix normalized [CHR 0x5C])"
    by (rule length_TrimSpace_le)
  ultimately show "(TrimSpace (TrimSuffix normalized [CHR 0x5C]), normalized) \<in> measure length"
    by simp
qed

definition normalizeComparableCommand :: "string \<Rightarrow> string" where
  "normalizeComparableCommand command = stripTrailingBackslashes (TrimSpace (ToLower command))"

definition isDigit :: "char \<Rightarrow> bool" where
  "isDigit c = (48 \<le> (of_char c :: nat) \<and> (of_char c :: nat) \<le> 57)"

definition findAllDigits :: "string \<Rightarrow> string list" where
  "findAllDigits s = fieldsFrom (\<lambda>c. \<not> isDigit c) s []"

definition memoryNumericTokens :: "string \<Rightarrow> string list" where
  "memoryNumericTokens input =
     (let matches = findAllDigits (ToLower (TrimSpace input)) in
      if matches = [] then []
      else sort (tokenLoop TrimSpace 1 [] matches []))"

definition sameStringSet :: "string list \<Rightarrow> string list \<Rightarrow> bool" where
  "sameStringSet a b =
     (if length a \<noteq> length b then False
      else if length a = 0 then True
      else list_all (\<lambda>item. item \<in> set a) b)"

definition memorySignalTokens :: "string \<Rightarrow> string list" where
  "memorySignalTokens input =
     (let stopwords = [''the'', ''for'', ''and'', ''with'', ''from'', ''into'', ''onto'', ''that'',
            ''this'', ''you'', ''your'', ''can'', ''could'', ''how'', ''what'', ''when'', ''where'',
            ''why'', ''are'', ''is'', ''to'', ''me'', ''my'', ''find'', ''search'', ''show'',
            ''list'', ''please'', ''help'', ''command'', ''commands'', ''run'', ''execute'',
            ''file'', ''files'', ''path'', ''paths'', ''location'', ''locate'', ''installed'',
            ''install'', ''current'', ''global'', ''local'', ''all''];
          parts = FieldsFunc (ToLower (TrimSpace input)) isTokenSeparator
      in tokenLoop (\<lambda>part. Trim (TrimSpace part) punctCutset) 2 stopwords parts [])"

definition memoryQueryCompatible :: "string \<Rightarrow> string \<Rightarrow> bool" where
  "memoryQueryCompatible query storedQuery =
     (let nq = normalizeComparableCommand query;
          ns = normalizeComparableCommand storedQuery in
      if nq = [] \<or> ns = [] then False
      else if nq = ns then True
      else (let queryNums = memoryNumericTokens query;
                storedNums = memoryNumericTokens storedQuery in
        if (length queryNums > 0 \<or> length storedNums > 0) \<and> \<not> sameStringSet queryNums storedNums
        then False
        else (let queryTokens = memorySignalTokens query;
                  storedTokens = memorySignalTokens storedQuery in
          if length queryTokens = 0 \<or> length storedTokens = 0 then False
          else (let shared = length (filter (\<lambda>token. token \<in> set storedTokens) queryTokens) in
            if shared = 0 then False
            else if shared \<ge> 2 then True
            else if length queryTokens = 1 \<and> length storedTokens = 1 \<and> shared = 1 then True
            else Contains ns nq \<or> Contains nq ns))))"

subsection \<open>Facts about the token lists\<close>

lemma tokenLoop_distinct:
  "distinct out \<Longrightarrow> distinct (tokenLoop clean n stop parts out)"
  by (induction parts arbitrary: out) (auto simp: Let_def)

lemma distinct_memoryNumericTokens: "distinct (memoryNumericTokens s)"
  by (simp add: memoryNumericTokens_def Let_def tokenLoop_distinct)

lemma distinct_memorySignalTokens: "distinct (memorySignalTokens s)"
  by (simp add: memorySignalTokens_def Let_def tokenLoop_distinct)

lemma sameStringSet_iff:
  assumes "distinct a" "distinct b"
  shows "sameStringSet a b \<longleftrightarrow> set a = set b"
proof
  assume s: "sameStringSet a b"
  then have len: "length a = length b" by (auto simp: sameStringSet_def split: if_splits)
  from s have sub: "set b \<subseteq> set a"
    by (auto simp: sameStringSet_def list_all_iff split: if_splits)
  have "card (set b) = card (set a)"
    using assms len by (simp add: distinct_card)
  then show "set a = set b"
    using sub by (metis card_subset_eq List.finite_set)
next
  assume e: "set a = set b"
  then have "length a = length b" using assms by (metis distinct_card)
  then show "sameStringSet a b" using e by (auto simp: sameStringSet_def list_all_iff)
qed

lemma shared_count:
  "distinct a \<Longrightarrow> length (filter (\<lambda>t. t \<in> set b) a) = card (set a \<inter> set b)"
proof -
  assume d: "distinct a"
  have "set (filter (\<lambda>t. t \<in> set b) a) = set a \<inter> set b" by auto
  moreover have "distinct (filter (\<lambda>t. t \<in> set b) a)" using d by simp
  ultimately show ?thesis by (metis distinct_card)
qed

subsection \<open>The claim about compatibility\<close>

text \<open>
  The claim's wording, read as a definition: compatible when the normalized strings are
  identical, or else when the numeric tokens match exactly and the overlap is at least 2,
  or is exactly 1 with one signal token on each side, or one normalized string contains
  the other.
\<close>

definition spec_memory_query_compatible :: "string \<Rightarrow> string \<Rightarrow> bool" where
  "spec_memory_query_compatible query storedQuery =
     (let nq = normalizeComparableCommand query;
          ns = normalizeComparableCommand storedQuery;
          overlap = card (set (memorySignalTokens query) \<inter> set (memorySignalTokens storedQuery))
      in nq = ns
         \<or> (set (memoryNumericTokens query) = set (memoryNumericTokens storedQuery)
            \<and> (overlap \<ge> 2
               \<or> (overlap = 1 \<and> length (memorySignalTokens query) = 1
                   \<and> length (memorySignalTokens storedQuery) = 1)
               \<or> Contains ns nq \<or> Contains nq ns)))"

text \<open>
  C8 (as amended). \<open>memoryQueryCompatible\<close> returns true exactly when both normalized
  strings are non-empty and either they are identical, or the sets of numeric tokens
  match exactly and the signal-token overlap is at least 2, or is exactly 1 and in
  addition either both sides have exactly one signal token or one normalized string
  contains the other. In particular two queries whose normalized strings differ and
  whose sets of numeric tokens differ (port 3000 against port 8000) are never
  compatible. The numeric tokens of a query are compared as sets, so two queries that
  differ in a numeric token but use the same set of numbers can be compatible.
\<close>

theorem memory_query_compatible_iff:
  "(memoryQueryCompatible query storedQuery \<longleftrightarrow>
      normalizeComparableCommand query \<noteq> [] \<and> normalizeComparableCommand storedQuery \<noteq> []
      \<and> (normalizeComparableCommand query = normalizeComparableCommand storedQuery
         \<or> (set (memoryNumericTokens query) = set (memoryNumericTokens storedQuery)
            \<and> (card (set (memorySignalTokens query) \<inter> set (memorySignalTokens storedQuery)) \<ge> 2
               \<or> (card (set (memorySignalTokens query) \<inter> set (memorySignalTokens storedQuery)) = 1
                  \<and> ((length (memorySignalTokens query) = 1
                       \<and> length (memorySignalTokens storedQuery) = 1)
                      \<or> Contains (normalizeComparableCommand storedQuery) (normalizeComparableCommand query)
                      \<or> Contains (normalizeComparableCommand query) (normalizeComparableCommand storedQuery)))))))
   \<and> (normalizeComparableCommand query \<noteq> normalizeComparableCommand storedQuery
       \<and> set (memoryNumericTokens query) \<noteq> set (memoryNumericTokens storedQuery)
      \<longrightarrow> \<not> memoryQueryCompatible query storedQuery)"
proof -
  define nq where "nq = normalizeComparableCommand query"
  define ns where "ns = normalizeComparableCommand storedQuery"
  define qn where "qn = memoryNumericTokens query"
  define sn where "sn = memoryNumericTokens storedQuery"
  define qt where "qt = memorySignalTokens query"
  define st where "st = memorySignalTokens storedQuery"
  define shared where "shared = length (filter (\<lambda>token. token \<in> set st) qt)"
  have nums: "sameStringSet qn sn \<longleftrightarrow> set qn = set sn"
    unfolding qn_def sn_def
    by (rule sameStringSet_iff) (rule distinct_memoryNumericTokens)+
  have sh: "shared = card (set qt \<inter> set st)"
    unfolding shared_def qt_def by (rule shared_count) (rule distinct_memorySignalTokens)
  have e1: "qt = [] \<Longrightarrow> shared = 0" by (simp add: shared_def)
  have e2: "st = [] \<Longrightarrow> shared = 0" by (simp add: shared_def)
  have code: "memoryQueryCompatible query storedQuery \<longleftrightarrow>
     (if nq = [] \<or> ns = [] then False
      else if nq = ns then True
      else if (length qn > 0 \<or> length sn > 0) \<and> \<not> sameStringSet qn sn then False
      else if length qt = 0 \<or> length st = 0 then False
      else if shared = 0 then False
      else if shared \<ge> 2 then True
      else if length qt = 1 \<and> length st = 1 \<and> shared = 1 then True
      else Contains ns nq \<or> Contains nq ns)"
    unfolding memoryQueryCompatible_def Let_def nq_def ns_def qn_def sn_def qt_def st_def shared_def
    by simp
  have empty_nums: "\<not> (length qn > 0 \<or> length sn > 0) \<Longrightarrow> set qn = set sn" by simp
  have main: "memoryQueryCompatible query storedQuery \<longleftrightarrow>
      nq \<noteq> [] \<and> ns \<noteq> []
      \<and> (nq = ns
         \<or> (set qn = set sn
            \<and> (shared \<ge> 2
               \<or> (shared = 1 \<and> ((length qt = 1 \<and> length st = 1) \<or> Contains ns nq \<or> Contains nq ns)))))"
    unfolding code using nums empty_nums e1 e2
    by (cases "shared = 0"; cases "shared \<ge> 2"; cases "nq = ns"; cases "set qn = set sn") auto
  show ?thesis
    using main unfolding sh nq_def ns_def qn_def sn_def qt_def st_def by blast
qed

text \<open>
  Scenario 1 of the specification (port 3000 against port 8000 is rejected), and a
  query contained in the remembered one with one shared token (accepted).
\<close>

theorem memory_query_compatible_iff_witness:
  "\<not> memoryQueryCompatible ''port 3000'' ''port 8000''
   \<and> memoryQueryCompatible ''aws'' ''aws sso login''"
proof -
  have a: "normalizeComparableCommand ''port 3000'' \<noteq> normalizeComparableCommand ''port 8000''"
    by code_simp
  have b: "set (memoryNumericTokens ''port 3000'') \<noteq> set (memoryNumericTokens ''port 8000'')"
    by code_simp
  have c: "normalizeComparableCommand ''aws'' = ''aws''"
    "normalizeComparableCommand ''aws sso login'' = ''aws sso login''"
    "memoryNumericTokens ''aws'' = []" "memoryNumericTokens ''aws sso login'' = []"
    "memorySignalTokens ''aws'' = [''aws'']"
    "memorySignalTokens ''aws sso login'' = [''aws'', ''sso'', ''login'']"
    "Contains ''aws sso login'' ''aws''"
    by code_simp+
  have d: "card (set [''aws''] \<inter> set [''aws'', ''sso'', ''login'']) = 1" by simp
  show ?thesis
    using memory_query_compatible_iff[of "''port 3000''" "''port 8000''"] a b
      memory_query_compatible_iff[of "''aws''" "''aws sso login''"] c d
    by (simp del: Contains.simps)
qed

text \<open>
  The claim as worded fails on the code in three places. Containment alone is not
  enough: \<^verbatim>\<open>ports\<close> contains \<^verbatim>\<open>port\<close> and neither has a numeric token, yet the two
  share no signal token and are incompatible. Two empty queries have identical
  normalized strings, yet the function returns false for an empty side. And
  \<^verbatim>\<open>ping 1 2 1\<close> and \<^verbatim>\<open>ping 1 2 2\<close> differ only in their last numeric token, yet
  they are compatible: the numeric tokens are collected without duplicates and
  compared as sets, and both sets are 1 and 2.
\<close>

theorem memory_query_compatible_counterexample:
  "spec_memory_query_compatible ''port'' ''ports'' \<and> \<not> memoryQueryCompatible ''port'' ''ports''
   \<and> spec_memory_query_compatible [] [] \<and> \<not> memoryQueryCompatible [] []
   \<and> Fields ''ping 1 2 1'' = [''ping'', ''1'', ''2'', ''1'']
   \<and> Fields ''ping 1 2 2'' = [''ping'', ''1'', ''2'', ''2'']
   \<and> memoryNumericTokens ''ping 1 2 1'' = [''1'', ''2'']
   \<and> memoryNumericTokens ''ping 1 2 2'' = [''1'', ''2'']
   \<and> memoryQueryCompatible ''ping 1 2 1'' ''ping 1 2 2''"
proof -
  have a: "normalizeComparableCommand ''port'' = ''port''"
    "normalizeComparableCommand ''ports'' = ''ports''"
    "memoryNumericTokens ''port'' = []" "memoryNumericTokens ''ports'' = []"
    "Contains ''ports'' ''port''"
    by code_simp+
  have 1: "spec_memory_query_compatible ''port'' ''ports''"
    using a by (simp add: spec_memory_query_compatible_def Let_def del: Contains.simps)
  have 2: "\<not> memoryQueryCompatible ''port'' ''ports''" by code_simp
  have 3: "spec_memory_query_compatible [] []"
    by (simp add: spec_memory_query_compatible_def Let_def)
  have 4: "\<not> memoryQueryCompatible [] []" by code_simp
  have 5: "Fields ''ping 1 2 1'' = [''ping'', ''1'', ''2'', ''1'']" by code_simp
  have 6: "Fields ''ping 1 2 2'' = [''ping'', ''1'', ''2'', ''2'']" by code_simp
  have 7: "memoryNumericTokens ''ping 1 2 1'' = [''1'', ''2'']" by code_simp
  have 8: "memoryNumericTokens ''ping 1 2 2'' = [''1'', ''2'']" by code_simp
  have 9: "memoryQueryCompatible ''ping 1 2 1'' ''ping 1 2 2''" by code_simp
  show ?thesis using 1 2 3 4 5 6 7 8 9 by blast
qed

section \<open>Sorting with a comparison function\<close>

text \<open>
  \<^verbatim>\<open>sort.Slice(xs, less)\<close> sorts in place by a comparison function and is not stable.
  The model is insertion sort, one of the orders Go may produce; the facts proved of it
  below (same elements, same length, sorted by the comparison) hold of every such order.
\<close>

fun insertBy :: "('a \<Rightarrow> 'a \<Rightarrow> bool) \<Rightarrow> 'a \<Rightarrow> 'a list \<Rightarrow> 'a list" where
  "insertBy lt x [] = [x]"
| "insertBy lt x (y # ys) = (if lt y x then y # insertBy lt x ys else x # y # ys)"

definition sortSlice :: "('a \<Rightarrow> 'a \<Rightarrow> bool) \<Rightarrow> 'a list \<Rightarrow> 'a list" where
  "sortSlice lt xs = foldr (insertBy lt) xs []"

lemma set_insertBy: "set (insertBy lt x ys) = insert x (set ys)"
  by (induction ys) auto

lemma set_sortSlice: "set (sortSlice lt xs) = set xs"
  by (induction xs) (auto simp: sortSlice_def set_insertBy)





lemma distinct_map_insertBy:
  "distinct (map f (insertBy lt x ys)) \<longleftrightarrow> f x \<notin> f ` set ys \<and> distinct (map f ys)"
  by (induction ys) (auto simp: set_insertBy)

lemma distinct_map_sortSlice:
  "distinct (map f (sortSlice lt xs)) \<longleftrightarrow> distinct (map f xs)"
proof (induction xs)
  case Nil
  then show ?case by (simp add: sortSlice_def)
next
  case (Cons x xs)
  have "sortSlice lt (x # xs) = insertBy lt x (sortSlice lt xs)"
    by (simp add: sortSlice_def)
  then show ?case using Cons by (simp add: distinct_map_insertBy set_sortSlice)
qed

lemma sorted_insertBy:
  assumes asym: "\<And>a b. lt a b \<Longrightarrow> \<not> lt b a"
      and ntrans: "\<And>a b c. \<not> lt a b \<Longrightarrow> \<not> lt b c \<Longrightarrow> \<not> lt a c"
      and s: "sorted_wrt (\<lambda>a b. \<not> lt b a) ys"
  shows "sorted_wrt (\<lambda>a b. \<not> lt b a) (insertBy lt x ys)"
  using s
proof (induction ys)
  case Nil
  then show ?case by simp
next
  case (Cons y ys)
  show ?case
  proof (cases "lt y x")
    case True
    then have "\<not> lt x y" by (rule asym)
    then show ?thesis using True Cons by (auto simp: set_insertBy)
  next
    case False
    have "\<forall>z\<in>set ys. \<not> lt z x"
    proof
      fix z assume "z \<in> set ys"
      then have "\<not> lt z y" using Cons.prems by simp
      then show "\<not> lt z x" using False by (rule ntrans)
    qed
    then show ?thesis using False Cons.prems by simp
  qed
qed

lemma sorted_sortSlice:
  assumes asym: "\<And>a b. lt a b \<Longrightarrow> \<not> lt b a"
      and ntrans: "\<And>a b c. \<not> lt a b \<Longrightarrow> \<not> lt b c \<Longrightarrow> \<not> lt a c"
  shows "sorted_wrt (\<lambda>a b. \<not> lt b a) (sortSlice lt xs)"
proof (induction xs)
  case Nil
  then show ?case by (simp add: sortSlice_def)
next
  case (Cons x xs)
  have "sortSlice lt (x # xs) = insertBy lt x (sortSlice lt xs)"
    by (simp add: sortSlice_def)
  then show ?case using sorted_insertBy[OF asym ntrans Cons] by simp
qed

section \<open>The memory store\<close>

text \<open>
  \<^verbatim>\<open>memory.Entry\<close>, \<^verbatim>\<open>memory.Store\<close> and \<^verbatim>\<open>memory.Match\<close>. The fields of an entry
  carry the prefix E and those of a match the prefix Mem. Times are RFC 3339 strings, as
  in the source, and compared as strings.
\<close>

record Entry =
  EQuery :: string
  ECommand :: string
  EScore :: real
  EUses :: int
  ESuccesses :: int
  EFailures :: int
  EUpdatedAt :: string
  ELastUsedAt :: string

type_synonym Store = "Entry list"


text \<open>
  \<^verbatim>\<open>normalize\<close> of package memory (here \<open>normalizeStr\<close>): trim, lower-case, then replace
  every pair of spaces by one space until no pair is left.
  \<open>replaceDoubleSpaces\<close> is \<^verbatim>\<open>strings.ReplaceAll(s, "  ", " ")\<close>.
\<close>

fun replaceDoubleSpaces :: "string \<Rightarrow> string" where
  "replaceDoubleSpaces (a # b # cs) =
     (if a = CHR '' '' \<and> b = CHR '' '' then CHR '' '' # replaceDoubleSpaces cs
      else a # replaceDoubleSpaces (b # cs))"
| "replaceDoubleSpaces cs = cs"

lemma length_replaceDoubleSpaces_le: "length (replaceDoubleSpaces s) \<le> length s"
  by (induction s rule: replaceDoubleSpaces.induct) auto

lemma length_replaceDoubleSpaces_less:
  "Contains s ''  '' \<Longrightarrow> length (replaceDoubleSpaces s) < length s"
proof (induction s rule: replaceDoubleSpaces.induct)
  case (1 a b cs)
  show ?case
  proof (cases "a = CHR '' '' \<and> b = CHR '' ''")
    case True
    then show ?thesis
      using length_replaceDoubleSpaces_le[of cs] by simp
  next
    case False
    then have "Contains (b # cs) ''  ''" using 1(3) by (auto simp: HasPrefix_def)
    then show ?thesis using 1(2) False by auto
  qed
qed (simp_all add: HasPrefix_def)

function collapseSpaces :: "string \<Rightarrow> string" where
  "collapseSpaces trimmed =
     (if Contains trimmed ''  '' then collapseSpaces (replaceDoubleSpaces trimmed) else trimmed)"
  by pat_completeness auto
termination
  by (relation "measure length") (simp_all add: length_replaceDoubleSpaces_less)

definition normalizeStr :: "string \<Rightarrow> string" where
  "normalizeStr input = collapseSpaces (ToLower (TrimSpace input))"

text \<open>
  \<^verbatim>\<open>Store.normalize\<close>: the loop trims the two strings, drops an entry with an empty one,
  raises a negative score to 0 and drops an entry whose key was seen; then the entries
  are sorted by score, then update time, both descending.
\<close>

definition entryLess :: "Entry \<Rightarrow> Entry \<Rightarrow> bool" where
  "entryLess a b =
     (if EScore a = EScore b then EUpdatedAt a > EUpdatedAt b else EScore a > EScore b)"

fun normalizeLoop :: "string list \<Rightarrow> Entry list \<Rightarrow> Entry list" where
  "normalizeLoop seen [] = []"
| "normalizeLoop seen (entry # rest) =
     (let entry1 = entry\<lparr> EQuery := TrimSpace (EQuery entry),
                           ECommand := TrimSpace (ECommand entry) \<rparr> in
      if EQuery entry1 = [] \<or> ECommand entry1 = [] then normalizeLoop seen rest
      else (let entry2 = (if EScore entry1 < 0 then entry1\<lparr> EScore := 0 \<rparr> else entry1);
                key = normalizeStr (EQuery entry2) @ ''|'' @ normalizeStr (ECommand entry2) in
            if key \<in> set seen then normalizeLoop seen rest
            else entry2 # normalizeLoop (key # seen) rest))"

definition Store_normalize :: "Store \<Rightarrow> Store" where
  "Store_normalize s = sortSlice entryLess (normalizeLoop [] s)"

text \<open>
  \<^verbatim>\<open>Load\<close> decodes the file and normalizes the result; \<^verbatim>\<open>Save\<close> normalizes its copy
  of the store and writes it. The models take the decoded file content, and return the
  store that is written.
\<close>

definition Load :: "Store \<Rightarrow> Store" where
  "Load decoded = Store_normalize decoded"

definition Save :: "Store \<Rightarrow> Store" where
  "Save store = Store_normalize store"

text \<open>
  \<^verbatim>\<open>Store.adjust\<close> and the operations built on it. The rounding of the two sums is the
  first argument and the current time, formatted, the second; the store is passed in
  and the updated store returned, or the error.
\<close>

definition clampScore :: "real \<Rightarrow> real" where
  "clampScore score = (if score < 0 then 0 else if score > 100 then 100 else score)"

fun entryIndexFrom :: "nat \<Rightarrow> string \<Rightarrow> string \<Rightarrow> Entry list \<Rightarrow> nat option" where
  "entryIndexFrom idx qn cn [] = None"
| "entryIndexFrom idx qn cn (entry # rest) =
     (if normalizeStr (EQuery entry) = qn \<and> normalizeStr (ECommand entry) = cn then Some idx
      else entryIndexFrom (Suc idx) qn cn rest)"

definition entryIndex :: "Store \<Rightarrow> string \<Rightarrow> string \<Rightarrow> nat option" where
  "entryIndex s query command = entryIndexFrom 0 (normalizeStr query) (normalizeStr command) s"

definition removeAt :: "Store \<Rightarrow> nat \<Rightarrow> Store" where
  "removeAt s index = (if index \<ge> length s then s else take index s @ drop (Suc index) s)"

definition adjust ::
  "(real \<Rightarrow> real) \<Rightarrow> string \<Rightarrow> Store \<Rightarrow> string \<Rightarrow> string \<Rightarrow> real \<Rightarrow> bool \<Rightarrow> bool \<Rightarrow> string + Store" where
  "adjust rnd now s query0 command0 delta success failure =
     (let query = TrimSpace query0; command = TrimSpace command0 in
      if query = [] \<or> command = [] then Inl ''query and command are required''
      else (case entryIndex s query command of
          None \<Rightarrow>
            (let entry = \<lparr> EQuery = query, ECommand = command,
                           EScore = clampScore (fadd rnd 12 delta),
                           EUses = 1, ESuccesses = (if success then 1 else 0),
                           EFailures = (if failure then 1 else 0), EUpdatedAt = now,
                           ELastUsedAt = (if success then now else []) \<rparr>
             in Inr (Store_normalize (s @ [entry])))
        | Some idx \<Rightarrow>
            (let old = s ! idx;
                 entry = old\<lparr> EScore := clampScore (fadd rnd (EScore old) delta),
                              EUses := EUses old + 1,
                              EUpdatedAt := now,
                              ESuccesses := (if success then ESuccesses old + 1 else ESuccesses old),
                              ELastUsedAt := (if success then now else ELastUsedAt old),
                              EFailures := (if failure then EFailures old + 1 else EFailures old) \<rparr>
             in if EScore entry \<le> 0 then Inr (Store_normalize (removeAt s idx))
                else Inr (Store_normalize (s[idx := entry])))))"

definition Remember :: "(real \<Rightarrow> real) \<Rightarrow> string \<Rightarrow> Store \<Rightarrow> string \<Rightarrow> string \<Rightarrow> string + Store" where
  "Remember rnd now s query command = adjust rnd now s query command 24 True False"

definition Learn ::
  "(real \<Rightarrow> real) \<Rightarrow> string \<Rightarrow> Store \<Rightarrow> string \<Rightarrow> string \<Rightarrow> bool \<Rightarrow> string + Store" where
  "Learn rnd now s query command success =
     (if success then adjust rnd now s query command 3 True False
      else adjust rnd now s query command (-2) False True)"

definition Promote :: "(real \<Rightarrow> real) \<Rightarrow> string \<Rightarrow> Store \<Rightarrow> string \<Rightarrow> string \<Rightarrow> string + Store" where
  "Promote rnd now s query command = adjust rnd now s query command 6 True False"

definition Demote :: "(real \<Rightarrow> real) \<Rightarrow> string \<Rightarrow> Store \<Rightarrow> string \<Rightarrow> string \<Rightarrow> string + Store" where
  "Demote rnd now s query command = adjust rnd now s query command (-6) False True"

text \<open>
  \<^verbatim>\<open>ForgetQuery\<close> returns the number of entries removed, with the updated store. With a
  query that normalizes to the empty string it returns 0 at once, before the store is
  normalized.
\<close>

definition ForgetQuery :: "Store \<Rightarrow> string \<Rightarrow> nat \<times> Store" where
  "ForgetQuery s query0 =
     (let query = normalizeStr query0 in
      if query = [] then (0, s)
      else (length (filter (\<lambda>entry. normalizeStr (EQuery entry) = query) s),
            Store_normalize (filter (\<lambda>entry. normalizeStr (EQuery entry) \<noteq> query) s)))"


subsection \<open>The invariant of the store\<close>

text \<open>
  The key of an entry is the pair of its normalized query and normalized command. A
  store is well formed when no two entries share a key, every score lies in (0,100],
  and the entries are sorted by score and then update time, both descending.
\<close>

definition entryKey :: "Entry \<Rightarrow> string \<times> string" where
  "entryKey e = (normalizeStr (EQuery e), normalizeStr (ECommand e))"

definition storeInvariant :: "Store \<Rightarrow> bool" where
  "storeInvariant s =
     (distinct (map entryKey s)
      \<and> (\<forall>e\<in>set s. 0 < EScore e \<and> EScore e \<le> 100)
      \<and> sorted_wrt (\<lambda>a b. \<not> entryLess b a) s)"

lemma normalizeStr_TrimSpace: "normalizeStr (TrimSpace s) = normalizeStr s"
  by (simp add: normalizeStr_def TrimSpace_idem)

lemma entryLess_asym: "entryLess a b \<Longrightarrow> \<not> entryLess b a"
  by (auto simp: entryLess_def split: if_splits)

lemma entryLess_ntrans: "\<not> entryLess a b \<Longrightarrow> \<not> entryLess b c \<Longrightarrow> \<not> entryLess a c"
  by (auto simp: entryLess_def split: if_splits)

lemma sorted_Store_normalize: "sorted_wrt (\<lambda>a b. \<not> entryLess b a) (Store_normalize s)"
  unfolding Store_normalize_def
proof (rule sorted_sortSlice)
  show "\<And>a b. entryLess a b \<Longrightarrow> \<not> entryLess b a" by (rule entryLess_asym)
  show "\<And>a b c. \<not> entryLess a b \<Longrightarrow> \<not> entryLess b c \<Longrightarrow> \<not> entryLess a c"
    by (rule entryLess_ntrans)
qed

text \<open>The string the loop of \<^verbatim>\<open>Store.normalize\<close> uses as its key in the map \<^verbatim>\<open>seen\<close>.\<close>

definition keyString :: "Entry \<Rightarrow> string" where
  "keyString e = normalizeStr (EQuery e) @ ''|'' @ normalizeStr (ECommand e)"

lemma normalizeLoop_keys:
  "distinct (map keyString (normalizeLoop seen s))
   \<and> keyString ` set (normalizeLoop seen s) \<inter> set seen = {}"
proof (induction s arbitrary: seen)
  case Nil
  then show ?case by simp
next
  case (Cons entry rest)
  show ?case
    using Cons[of seen]
      Cons[of "(normalizeStr (TrimSpace (EQuery entry)) @ ''|'' @ normalizeStr (TrimSpace (ECommand entry))) # seen"]
    by (auto simp: Let_def keyString_def)
qed

lemma distinct_map_factor:
  "distinct (map (\<lambda>x. f (g x)) xs) \<Longrightarrow> distinct (map g xs)"
  by (induction xs) auto

lemma keyString_entryKey: "keyString = (\<lambda>e. fst (entryKey e) @ ''|'' @ snd (entryKey e))"
  by (simp add: fun_eq_iff keyString_def entryKey_def)

lemma distinct_normalizeLoop: "distinct (map entryKey (normalizeLoop seen s))"
proof -
  have "distinct (map (\<lambda>e. fst (entryKey e) @ ''|'' @ snd (entryKey e)) (normalizeLoop seen s))"
    using normalizeLoop_keys[of seen s] unfolding keyString_entryKey by blast
  then show ?thesis by (rule distinct_map_factor)
qed

lemma distinct_Store_normalize: "distinct (map entryKey (Store_normalize s))"
  by (simp add: Store_normalize_def distinct_map_sortSlice distinct_normalizeLoop)

lemma normalizeLoop_nonneg: "e \<in> set (normalizeLoop seen s) \<Longrightarrow> 0 \<le> EScore e"
  by (induction s arbitrary: seen) (auto simp: Let_def split: if_splits)

lemma normalizeLoop_origin:
  "e' \<in> set (normalizeLoop seen s) \<Longrightarrow>
     \<exists>e\<in>set s. entryKey e' = entryKey e \<and> (EScore e' = EScore e \<or> (EScore e < 0 \<and> EScore e' = 0))"
proof (induction s arbitrary: seen)
  case Nil
  then show ?case by simp
next
  case (Cons entry rest)
  then show ?case
    by (fastforce simp: Let_def entryKey_def normalizeStr_TrimSpace split: if_splits)
qed

lemma Store_normalize_origin:
  "e' \<in> set (Store_normalize s) \<Longrightarrow>
     \<exists>e\<in>set s. entryKey e' = entryKey e \<and> (EScore e' = EScore e \<or> (EScore e < 0 \<and> EScore e' = 0))"
  by (simp add: Store_normalize_def set_sortSlice normalizeLoop_origin)

lemma Store_normalize_nonneg: "e \<in> set (Store_normalize s) \<Longrightarrow> 0 \<le> EScore e"
  by (simp add: Store_normalize_def set_sortSlice normalizeLoop_nonneg)

lemma Store_normalize_range:
  assumes "\<forall>e\<in>set s. 0 < EScore e \<and> EScore e \<le> 100"
  shows "\<forall>e\<in>set (Store_normalize s). 0 < EScore e \<and> EScore e \<le> 100"
proof
  fix e' assume "e' \<in> set (Store_normalize s)"
  then obtain e where "e \<in> set s" "EScore e' = EScore e \<or> (EScore e < 0 \<and> EScore e' = 0)"
    using Store_normalize_origin by blast
  then show "0 < EScore e' \<and> EScore e' \<le> 100" using assms by force
qed

lemma storeInvariant_normalize:
  "\<forall>e\<in>set s. 0 < EScore e \<and> EScore e \<le> 100 \<Longrightarrow> storeInvariant (Store_normalize s)"
  unfolding storeInvariant_def
  using Store_normalize_range[of s] distinct_Store_normalize[of s] sorted_Store_normalize[of s]
  by blast

lemma entryIndexFrom_Some:
  "entryIndexFrom k qn cn s = Some idx \<Longrightarrow>
     k \<le> idx \<and> idx - k < length s \<and> entryKey (s ! (idx - k)) = (qn, cn)"
proof (induction s arbitrary: k)
  case Nil
  then show ?case by simp
next
  case (Cons entry rest)
  show ?case
  proof (cases "normalizeStr (EQuery entry) = qn \<and> normalizeStr (ECommand entry) = cn")
    case True
    then show ?thesis using Cons.prems by (simp add: entryKey_def)
  next
    case False
    then have "entryIndexFrom (Suc k) qn cn rest = Some idx"
      using Cons.prems by (auto split: if_splits)
    from Cons.IH[OF this] have h: "Suc k \<le> idx" "idx - Suc k < length rest"
      "entryKey (rest ! (idx - Suc k)) = (qn, cn)" by simp_all
    from h(1) have "idx - k = Suc (idx - Suc k)" by simp
    then show ?thesis using h by simp
  qed
qed

lemma entryIndex_Some:
  "entryIndex s q c = Some idx \<Longrightarrow>
     idx < length s \<and> entryKey (s ! idx) = (normalizeStr q, normalizeStr c)"
  using entryIndexFrom_Some[of 0 "normalizeStr q" "normalizeStr c" s idx]
  by (simp add: entryIndex_def)

lemma removeAt_subset: "set (removeAt s idx) \<subseteq> set s"
  by (auto simp: removeAt_def dest: in_set_takeD in_set_dropD)

lemma removeAt_key_gone:
  assumes "distinct (map f s)" "idx < length s"
  shows "f (s ! idx) \<notin> f ` set (removeAt s idx)"
proof -
  have "s = take idx s @ (s ! idx) # drop (Suc idx) s"
    using assms(2) by (rule id_take_nth_drop)
  then have "distinct (map f (take idx s @ (s ! idx) # drop (Suc idx) s))"
    using assms(1) by simp
  then show ?thesis using assms(2) by (auto simp: removeAt_def)
qed

lemma adjust_normalized:
  assumes "adjust rnd now s q c delta su fa = Inr s'"
  shows "\<exists>t. s' = Store_normalize t"
  using assms
  by (auto simp: adjust_def Let_def split: if_splits option.splits)

lemma adjust_range:
  assumes range: "\<forall>e\<in>set s. 0 < EScore e \<and> EScore e \<le> 100"
      and new: "0 < clampScore (fadd rnd 12 delta)"
      and res: "adjust rnd now s q c delta su fa = Inr s'"
  shows "storeInvariant s'"
proof -
  have cl: "clampScore x \<le> 100" for x by (simp add: clampScore_def)
  show ?thesis
  proof (cases "entryIndex s (TrimSpace q) (TrimSpace c)")
    case None
    then have "s' = Store_normalize (s @ [\<lparr> EQuery = TrimSpace q, ECommand = TrimSpace c,
        EScore = clampScore (fadd rnd 12 delta), EUses = 1, ESuccesses = (if su then 1 else 0),
        EFailures = (if fa then 1 else 0), EUpdatedAt = now,
        ELastUsedAt = (if su then now else []) \<rparr>])"
      using res by (auto simp: adjust_def Let_def split: if_splits)
    then show ?thesis
      using range new cl by (auto intro!: storeInvariant_normalize)
  next
    case (Some idx)
    define entry where "entry = (s ! idx)\<lparr> EScore := clampScore (fadd rnd (EScore (s ! idx)) delta),
         EUses := EUses (s ! idx) + 1, EUpdatedAt := now,
         ESuccesses := (if su then ESuccesses (s ! idx) + 1 else ESuccesses (s ! idx)),
         ELastUsedAt := (if su then now else ELastUsedAt (s ! idx)),
         EFailures := (if fa then EFailures (s ! idx) + 1 else EFailures (s ! idx)) \<rparr>"
    have sc: "EScore entry = clampScore (fadd rnd (EScore (s ! idx)) delta)"
      by (simp add: entry_def)
    show ?thesis
    proof (cases "EScore entry \<le> 0")
      case True
      then have "s' = Store_normalize (removeAt s idx)"
        using res Some sc by (auto simp: adjust_def Let_def entry_def split: if_splits)
      then show ?thesis
        using range removeAt_subset[of s idx] by (auto intro!: storeInvariant_normalize)
    next
      case False
      then have "s' = Store_normalize (s[idx := entry])"
        using res Some sc by (auto simp: adjust_def Let_def entry_def split: if_splits)
      moreover have "\<forall>e\<in>set (s[idx := entry]). 0 < EScore e \<and> EScore e \<le> 100"
        using range False sc cl set_update_subset_insert[of s idx entry] by auto
      ultimately show ?thesis by (auto intro!: storeInvariant_normalize)
    qed
  qed
qed

lemma adjust_removes:
  assumes d: "distinct (map entryKey s)"
      and idx: "entryIndex s (TrimSpace q) (TrimSpace c) = Some idx"
      and low: "clampScore (fadd rnd (EScore (s ! idx)) delta) \<le> 0"
      and res: "adjust rnd now s q c delta su fa = Inr s'"
  shows "(normalizeStr q, normalizeStr c) \<notin> entryKey ` set s'"
proof -
  have s': "s' = Store_normalize (removeAt s idx)"
    using res idx low by (auto simp: adjust_def Let_def split: if_splits)
  have k: "idx < length s" "entryKey (s ! idx) = (normalizeStr q, normalizeStr c)"
    using entryIndex_Some[OF idx] by (simp_all add: normalizeStr_TrimSpace)
  have gone: "(normalizeStr q, normalizeStr c) \<notin> entryKey ` set (removeAt s idx)"
    using removeAt_key_gone[OF d k(1)] k(2) by simp
  show ?thesis
  proof
    assume "(normalizeStr q, normalizeStr c) \<in> entryKey ` set s'"
    then obtain e' where "e' \<in> set (Store_normalize (removeAt s idx))"
      "entryKey e' = (normalizeStr q, normalizeStr c)" using s' by auto
    then obtain e where "e \<in> set (removeAt s idx)" "entryKey e = (normalizeStr q, normalizeStr c)"
      using Store_normalize_origin by metis
    then show False using gone by force
  qed
qed

text \<open>
  The sum \<^verbatim>\<open>12 + delta\<close> that scores a new entry, for the five values of \<^verbatim>\<open>delta\<close> that
  the operations pass: sums of small integers, which \<^verbatim>\<open>float64\<close> addition performs
  exactly.
\<close>

definition newScoresExact :: "(real \<Rightarrow> real) \<Rightarrow> bool" where
  "newScoresExact rnd =
     (fadd rnd 12 24 = 36 \<and> fadd rnd 12 3 = 15 \<and> fadd rnd 12 (-2) = 10
      \<and> fadd rnd 12 6 = 18 \<and> fadd rnd 12 (-6) = 6)"

lemma newScoresExact_roundFloat64: "newScoresExact roundFloat64"
  unfolding newScoresExact_def by code_simp

text \<open>
  The stores that an operation returns after running \<^verbatim>\<open>Store.normalize\<close>: the results
  of \<open>Load\<close> and \<open>Save\<close>, of a successful \<open>Remember\<close>, \<open>Learn\<close>, \<open>Promote\<close> or \<open>Demote\<close>, and of
  \<open>ForgetQuery\<close> with a query that does not normalize to the empty string.
\<close>

definition operationResults ::
  "(real \<Rightarrow> real) \<Rightarrow> string \<Rightarrow> Store \<Rightarrow> string \<Rightarrow> string \<Rightarrow> bool \<Rightarrow> Store set" where
  "operationResults rnd now s q c success =
     {Load s, Save s}
     \<union> {s'. Remember rnd now s q c = Inr s'}
     \<union> {s'. Learn rnd now s q c success = Inr s'}
     \<union> {s'. Promote rnd now s q c = Inr s'}
     \<union> {s'. Demote rnd now s q c = Inr s'}
     \<union> {s'. normalizeStr q \<noteq> [] \<and> s' = snd (ForgetQuery s q)}"

lemma operationResults_normalized:
  assumes "s' \<in> operationResults rnd now s q c success"
  shows "\<exists>t. s' = Store_normalize t"
proof -
  have f: "normalizeStr q \<noteq> [] \<Longrightarrow> \<exists>t. snd (ForgetQuery s q) = Store_normalize t"
    by (auto simp: ForgetQuery_def Let_def)
  have l: "\<exists>t. Load s = Store_normalize t" "\<exists>t. Save s = Store_normalize t"
    by (auto simp: Load_def Save_def)
  show ?thesis
    using assms f l
      adjust_normalized[of rnd now s q c 24 True False s']
      adjust_normalized[of rnd now s q c 3 True False s']
      adjust_normalized[of rnd now s q c "-2" False True s']
      adjust_normalized[of rnd now s q c 6 True False s']
      adjust_normalized[of rnd now s q c "-6" False True s']
    unfolding operationResults_def Remember_def Learn_def Promote_def Demote_def
    by (auto split: if_splits)
qed

lemma operationResults_range:
  assumes ex: "newScoresExact rnd"
      and range: "\<forall>e\<in>set s. 0 < EScore e \<and> EScore e \<le> 100"
      and res: "s' \<in> operationResults rnd now s q c success"
  shows "storeInvariant s'"
proof -
  have n: "storeInvariant (Store_normalize s)"
    using range by (rule storeInvariant_normalize)
  have f: "storeInvariant (Store_normalize (filter (\<lambda>entry. normalizeStr (EQuery entry) \<noteq> normalizeStr q) s))"
    using range by (auto intro!: storeInvariant_normalize)
  have fq: "normalizeStr q \<noteq> [] \<Longrightarrow> storeInvariant (snd (ForgetQuery s q))"
    using f by (simp add: ForgetQuery_def Let_def)
  have a: "adjust rnd now s q c 24 True False = Inr s' \<Longrightarrow> storeInvariant s'"
    "adjust rnd now s q c 3 True False = Inr s' \<Longrightarrow> storeInvariant s'"
    "adjust rnd now s q c (-2) False True = Inr s' \<Longrightarrow> storeInvariant s'"
    "adjust rnd now s q c 6 True False = Inr s' \<Longrightarrow> storeInvariant s'"
    "adjust rnd now s q c (-6) False True = Inr s' \<Longrightarrow> storeInvariant s'"
    using adjust_range[OF range, of rnd 24 now q c True False s']
      adjust_range[OF range, of rnd 3 now q c True False s']
      adjust_range[OF range, of rnd "-2" now q c False True s']
      adjust_range[OF range, of rnd 6 now q c True False s']
      adjust_range[OF range, of rnd "-6" now q c False True s']
      ex[unfolded newScoresExact_def]
    by (simp_all add: clampScore_def)
  show ?thesis
    using res n fq a
    unfolding operationResults_def Remember_def Learn_def Promote_def Demote_def Load_def Save_def
    by (auto split: if_splits)
qed

lemma ForgetQuery_empty: "normalizeStr q = [] \<Longrightarrow> ForgetQuery s q = (0, s)"
  by (simp add: ForgetQuery_def)

subsection \<open>The claim about the store\<close>

text \<open>
  C6 (as amended). Take any store \<open>s\<close> and any operation that normalizes: load, save, a
  remember, learn, promote or demote that succeeds, or a forget_query whose query does
  not normalize to the empty string. After it the entries are deduplicated on the key
  (normalize(query), normalize(command)), sorted by (score desc, updated_at desc), and
  every score is at least 0. If moreover every score of \<open>s\<close> lies in (0,100], then every
  score after the operation lies in (0,100], so that no entry with a score of 0 or less
  appears. A forget_query whose query normalizes to the empty string removes nothing
  and leaves the store as it is. The empty store is well formed (deduplicated, sorted,
  every score in (0,100]), and every operation takes a well-formed store to a
  well-formed store. In a store that is deduplicated on the key, an entry whose clamped
  score falls to 0 or less in an adjustment is removed: no entry with its key remains.
  The score of a new entry is a \<^verbatim>\<open>float64\<close> sum of two small integers, which is exact
  (\<open>newScoresExact\<close>, which holds of \<open>roundFloat64\<close>).
\<close>

theorem memory_store_invariant:
  "(\<forall>s'\<in>operationResults rnd now s q c success.
       distinct (map entryKey s') \<and> sorted_wrt (\<lambda>a b. \<not> entryLess b a) s'
       \<and> (\<forall>e\<in>set s'. 0 \<le> EScore e))
   \<and> (newScoresExact rnd \<and> (\<forall>e\<in>set s. 0 < EScore e \<and> EScore e \<le> 100)
      \<longrightarrow> (\<forall>s'\<in>operationResults rnd now s q c success. storeInvariant s'))
   \<and> (normalizeStr q = [] \<longrightarrow> ForgetQuery s q = (0, s))
   \<and> storeInvariant []
   \<and> (newScoresExact rnd \<and> storeInvariant s
      \<longrightarrow> (\<forall>s'\<in>operationResults rnd now s q c success. storeInvariant s')
          \<and> storeInvariant (snd (ForgetQuery s q)))
   \<and> (distinct (map entryKey s) \<and> entryIndex s (TrimSpace q) (TrimSpace c) = Some idx
        \<and> clampScore (fadd rnd (EScore (s ! idx)) delta) \<le> 0
        \<and> adjust rnd now s q c delta su fa = Inr t
      \<longrightarrow> (normalizeStr q, normalizeStr c) \<notin> entryKey ` set t)"
proof -
  have shape: "\<forall>s'\<in>operationResults rnd now s q c success.
       distinct (map entryKey s') \<and> sorted_wrt (\<lambda>a b. \<not> entryLess b a) s'
       \<and> (\<forall>e\<in>set s'. 0 \<le> EScore e)"
  proof
    fix s' assume "s' \<in> operationResults rnd now s q c success"
    then obtain t where "s' = Store_normalize t"
      using operationResults_normalized by blast
    then show "distinct (map entryKey s') \<and> sorted_wrt (\<lambda>a b. \<not> entryLess b a) s'
       \<and> (\<forall>e\<in>set s'. 0 \<le> EScore e)"
      by (simp add: distinct_Store_normalize sorted_Store_normalize Store_normalize_nonneg)
  qed
  have range: "newScoresExact rnd \<and> (\<forall>e\<in>set s. 0 < EScore e \<and> EScore e \<le> 100)
      \<longrightarrow> (\<forall>s'\<in>operationResults rnd now s q c success. storeInvariant s')"
    using operationResults_range[of rnd s _ now q c success] by blast
  have fe: "normalizeStr q = [] \<longrightarrow> ForgetQuery s q = (0, s)"
    by (simp add: ForgetQuery_empty)
  have empty: "storeInvariant []" by (simp add: storeInvariant_def)
  have r: "storeInvariant s \<Longrightarrow> \<forall>e\<in>set s. 0 < EScore e \<and> EScore e \<le> 100"
    by (simp add: storeInvariant_def)
  have fq: "storeInvariant s \<Longrightarrow> storeInvariant (snd (ForgetQuery s q))"
  proof (cases "normalizeStr q = []")
    case True
    assume "storeInvariant s"
    then show ?thesis using True by (simp add: ForgetQuery_empty)
  next
    case False
    assume "storeInvariant s"
    then have "\<forall>e\<in>set (filter (\<lambda>entry. normalizeStr (EQuery entry) \<noteq> normalizeStr q) s).
                 0 < EScore e \<and> EScore e \<le> 100"
      using r by simp
    then have "storeInvariant (Store_normalize
                 (filter (\<lambda>entry. normalizeStr (EQuery entry) \<noteq> normalizeStr q) s))"
      by (rule storeInvariant_normalize)
    then show ?thesis using False by (simp add: ForgetQuery_def Let_def)
  qed
  have pres: "newScoresExact rnd \<and> storeInvariant s
      \<longrightarrow> (\<forall>s'\<in>operationResults rnd now s q c success. storeInvariant s')
          \<and> storeInvariant (snd (ForgetQuery s q))"
    using range r fq by blast
  have rem: "distinct (map entryKey s) \<and> entryIndex s (TrimSpace q) (TrimSpace c) = Some idx
        \<and> clampScore (fadd rnd (EScore (s ! idx)) delta) \<le> 0
        \<and> adjust rnd now s q c delta su fa = Inr t
      \<longrightarrow> (normalizeStr q, normalizeStr c) \<notin> entryKey ` set t"
    using adjust_removes[of s q c idx rnd delta now su fa t] by blast
  show ?thesis
    using shape range fe empty pres rem by blast
qed

text \<open>
  Remembering a command in the empty store gives one entry of score 36, a well-formed
  store; demoting the only entry of a store from score 5 removes it; forgetting the
  empty query changes nothing.
\<close>

theorem memory_store_invariant_witness:
  "storeInvariant [\<lparr> EQuery = ''logout aws'', ECommand = ''aws sso logout'', EScore = 36, EUses = 1,
       ESuccesses = 1, EFailures = 0, EUpdatedAt = ''2026-02-20T10:00:00Z'',
       ELastUsedAt = ''2026-02-20T10:00:00Z'' \<rparr>]
   \<and> adjust roundFloat64 ''2026-02-21T10:00:00Z''
        [\<lparr> EQuery = ''logout aws'', ECommand = ''aws sso logout'', EScore = 5, EUses = 1,
           ESuccesses = 1, EFailures = 0, EUpdatedAt = ''2026-02-20T10:00:00Z'',
           ELastUsedAt = ''2026-02-20T10:00:00Z'' \<rparr>]
        ''logout aws'' ''aws sso logout'' (-6) False True = Inr []
   \<and> (normalizeStr ''logout aws'', normalizeStr ''aws sso logout'') \<notin> entryKey ` set []
   \<and> ForgetQuery [\<lparr> EQuery = ''logout aws'', ECommand = ''aws sso logout'', EScore = 5, EUses = 1,
           ESuccesses = 1, EFailures = 0, EUpdatedAt = ''2026-02-20T10:00:00Z'',
           ELastUsedAt = ''2026-02-20T10:00:00Z'' \<rparr>] ''  ''
      = (0, [\<lparr> EQuery = ''logout aws'', ECommand = ''aws sso logout'', EScore = 5, EUses = 1,
           ESuccesses = 1, EFailures = 0, EUpdatedAt = ''2026-02-20T10:00:00Z'',
           ELastUsedAt = ''2026-02-20T10:00:00Z'' \<rparr>])"
proof -
  let ?e5 = "\<lparr> EQuery = ''logout aws'', ECommand = ''aws sso logout'', EScore = 5, EUses = 1,
           ESuccesses = 1, EFailures = 0, EUpdatedAt = ''2026-02-20T10:00:00Z'',
           ELastUsedAt = ''2026-02-20T10:00:00Z'' \<rparr>"
  let ?e36 = "\<lparr> EQuery = ''logout aws'', ECommand = ''aws sso logout'', EScore = 36, EUses = 1,
       ESuccesses = 1, EFailures = 0, EUpdatedAt = ''2026-02-20T10:00:00Z'',
       ELastUsedAt = ''2026-02-20T10:00:00Z'' \<rparr>"
  have ex: "newScoresExact roundFloat64" by (rule newScoresExact_roundFloat64)
  have r: "Remember roundFloat64 ''2026-02-20T10:00:00Z'' [] ''logout aws'' ''aws sso logout''
      = Inr [?e36]"
    by code_simp
  then have m: "[?e36] \<in> operationResults roundFloat64 ''2026-02-20T10:00:00Z'' []
      ''logout aws'' ''aws sso logout'' True"
    by (simp add: operationResults_def)
  have e: "storeInvariant ([] :: Store)"
    using memory_store_invariant[where s = "[]"] by blast
  have first: "storeInvariant [?e36]"
    using memory_store_invariant[where s = "[]" and now = "''2026-02-20T10:00:00Z''"
        and q = "''logout aws''" and c = "''aws sso logout''" and rnd = roundFloat64
        and success = True] ex e m
    by blast
  have d5: "distinct (map entryKey [?e5])" by simp
  have idx: "entryIndex [?e5] (TrimSpace ''logout aws'') (TrimSpace ''aws sso logout'') = Some 0"
    by code_simp
  have low: "clampScore (fadd roundFloat64 (EScore ([?e5] ! 0)) (-6)) \<le> 0"
    by code_simp
  have d: "adjust roundFloat64 ''2026-02-21T10:00:00Z'' [?e5] ''logout aws'' ''aws sso logout'' (-6) False True
      = Inr []"
    by code_simp
  have second: "(normalizeStr ''logout aws'', normalizeStr ''aws sso logout'') \<notin> entryKey ` set []"
    using memory_store_invariant[where s = "[?e5]" and q = "''logout aws''"
        and c = "''aws sso logout''" and idx = 0 and delta = "-6" and rnd = roundFloat64
        and now = "''2026-02-21T10:00:00Z''" and su = False and fa = True and t = "[]"]
      d5 idx low d
    by blast
  have ne: "normalizeStr ''  '' = []" by code_simp
  have third: "ForgetQuery [?e5] ''  '' = (0, [?e5])"
    using memory_store_invariant[where s = "[?e5]" and q = "''  ''"] ne by blast
  show ?thesis using first d second third by blast
qed

text \<open>
  The claim as stated fails for \<open>Load\<close>: \<^verbatim>\<open>Store.normalize\<close> raises a negative score to
  0 but neither removes an entry with score 0 nor lowers a score above 100. A file
  with an entry of score 150 and one of score 0 loads with both entries unchanged.
\<close>

theorem memory_store_counterexample:
  "Load [\<lparr> EQuery = ''a'', ECommand = ''ls'', EScore = 150, EUses = 1, ESuccesses = 0,
            EFailures = 0, EUpdatedAt = ''2026-02-20T10:00:00Z'', ELastUsedAt = [] \<rparr>,
          \<lparr> EQuery = ''b'', ECommand = ''pwd'', EScore = 0, EUses = 1, ESuccesses = 0,
            EFailures = 0, EUpdatedAt = ''2026-02-20T10:00:00Z'', ELastUsedAt = [] \<rparr>]
   = [\<lparr> EQuery = ''a'', ECommand = ''ls'', EScore = 150, EUses = 1, ESuccesses = 0,
            EFailures = 0, EUpdatedAt = ''2026-02-20T10:00:00Z'', ELastUsedAt = [] \<rparr>,
      \<lparr> EQuery = ''b'', ECommand = ''pwd'', EScore = 0, EUses = 1, ESuccesses = 0,
            EFailures = 0, EUpdatedAt = ''2026-02-20T10:00:00Z'', ELastUsedAt = [] \<rparr>]"
  by code_simp

section \<open>Searching the memory store\<close>









subsection \<open>Facts about the search\<close>
















subsection \<open>The claim about the ranking\<close>




section \<open>Regular expressions and the redactor\<close>

text \<open>
  Go's \<^verbatim>\<open>regexp\<close> finds the leftmost match and, among the matches that start there, the
  one a backtracking search finds first (greedy repetition, left alternative first).
  \<open>run\<close> lists the states (end position, captures) a pattern reaches from a state, in
  that order of preference; the head of the list is Go's match. \<open>iterGreedy\<close> is the
  greedy star: one more round first, then none, each round consuming input. Character
  classes are predicates on bytes; \<^verbatim>\<open>\b\<close>, \<^verbatim>\<open>\s\<close> and \<^verbatim>\<open>\d\<close> are the ASCII ones, as
  in Go. Capture groups are numbered as in the pattern.
\<close>

datatype rx =
    Cls "char \<Rightarrow> bool"
  | Eps
  | Cat rx rx
  | Alt rx rx
  | Star rx
  | Grp nat rx
  | WordBoundary
  | BeginText
  | EndText

type_synonym caps = "(nat \<times> nat \<times> nat) list"
type_synonym mstate = "nat \<times> caps"

fun iterGreedy :: "nat \<Rightarrow> (mstate \<Rightarrow> mstate list) \<Rightarrow> mstate \<Rightarrow> mstate list" where
  "iterGreedy 0 f st = [st]"
| "iterGreedy (Suc n) f st =
     concat (map (iterGreedy n f) (filter (\<lambda>st'. fst st' > fst st) (f st))) @ [st]"

definition isWordChar :: "char \<Rightarrow> bool" where
  "isWordChar c = (isDigit c \<or> isUpper c \<or> (97 \<le> (of_char c :: nat) \<and> (of_char c :: nat) \<le> 122)
     \<or> c = CHR ''_'')"

definition wordAt :: "string \<Rightarrow> nat \<Rightarrow> bool" where
  "wordAt s i = (i < length s \<and> isWordChar (s ! i))"

fun run :: "rx \<Rightarrow> string \<Rightarrow> mstate \<Rightarrow> mstate list" where
  "run (Cls p) s st = (if fst st < length s \<and> p (s ! fst st) then [(Suc (fst st), snd st)] else [])"
| "run Eps s st = [st]"
| "run (Cat a b) s st = concat (map (\<lambda>st'. run b s st') (run a s st))"
| "run (Alt a b) s st = run a s st @ run b s st"
| "run (Star a) s st = iterGreedy (length s - fst st) (\<lambda>st'. run a s st') st"
| "run (Grp n a) s st = map (\<lambda>st'. (fst st', (n, fst st, fst st') # snd st')) (run a s st)"
| "run WordBoundary s st =
     (if (fst st > 0 \<and> wordAt s (fst st - 1)) \<noteq> wordAt s (fst st) then [st] else [])"
| "run BeginText s st = (if fst st = 0 then [st] else [])"
| "run EndText s st = (if fst st = length s then [st] else [])"

text \<open>
  \<open>doExecute\<close> searches from a position for the leftmost match. \<open>replaceAllFrom\<close> is the
  loop of \<^verbatim>\<open>Regexp.replaceAll\<close>: copy the text before the match, insert the expansion
  unless the match is empty and directly after the previous one, and go on behind the
  match, at least one byte further. A replacement template such as \<^verbatim>\<open>$1=<redacted>\<close> is
  the list of its parts.
\<close>

fun firstMatchIn :: "rx \<Rightarrow> string \<Rightarrow> nat list \<Rightarrow> (nat \<times> nat \<times> caps) option" where
  "firstMatchIn re src [] = None"
| "firstMatchIn re src (p # ps) =
     (case run re src (p, []) of
        [] \<Rightarrow> firstMatchIn re src ps
      | st # _ \<Rightarrow> Some (p, fst st, snd st))"

definition doExecute :: "rx \<Rightarrow> string \<Rightarrow> nat \<Rightarrow> (nat \<times> nat \<times> caps) option" where
  "doExecute re src pos = firstMatchIn re src [pos ..< Suc (length src)]"

datatype tpart = Lit string | Ref nat

fun capture :: "string \<Rightarrow> caps \<Rightarrow> nat \<Rightarrow> string" where
  "capture src [] n = []"
| "capture src ((k, i, j) # cs) n = (if k = n then take (j - i) (drop i src) else capture src cs n)"

fun expand :: "string \<Rightarrow> caps \<Rightarrow> tpart list \<Rightarrow> string" where
  "expand src cs [] = []"
| "expand src cs (Lit t # ps) = t @ expand src cs ps"
| "expand src cs (Ref n # ps) = capture src cs n @ expand src cs ps"

function replaceAllFrom :: "rx \<Rightarrow> tpart list \<Rightarrow> string \<Rightarrow> nat \<Rightarrow> nat \<Rightarrow> string" where
  "replaceAllFrom re repl src lastMatchEnd searchPos =
     (if searchPos > length src then drop lastMatchEnd src
      else (case doExecute re src searchPos of
          None \<Rightarrow> drop lastMatchEnd src
        | Some (a0, a1, cs) \<Rightarrow>
            take (a0 - lastMatchEnd) (drop lastMatchEnd src)
            @ (if a1 > lastMatchEnd \<or> a0 = 0 then expand src cs repl else [])
            @ replaceAllFrom re repl src a1 (if searchPos + 1 > a1 then searchPos + 1 else a1)))"
  by pat_completeness auto
termination
  by (relation "measure (\<lambda>(re, repl, src, lastMatchEnd, searchPos). Suc (length src) - searchPos)") auto

definition ReplaceAllString :: "rx \<Rightarrow> string \<Rightarrow> tpart list \<Rightarrow> string" where
  "ReplaceAllString re src repl = replaceAllFrom re repl src 0 0"

text \<open>
  The pieces of the patterns of \<^verbatim>\<open>secretRedactionRules\<close>. All eight patterns carry the
  flag \<^verbatim>\<open>(?i)\<close>: \<open>lit\<close> matches a lower-case literal in either case, and the class
  \<^verbatim>\<open>[a-z0-9_]\<close> becomes the word characters. \<open>oneOrMore\<close> is the postfix \<^verbatim>\<open>+\<close> and
  \<open>zeroOrOne\<close> the postfix \<^verbatim>\<open>?\<close>, both greedy.
\<close>

fun lit :: "string \<Rightarrow> rx" where
  "lit [] = Eps"
| "lit [c] = Cls (\<lambda>x. toLowerChar x = c)"
| "lit (c # cs) = Cat (Cls (\<lambda>x. toLowerChar x = c)) (lit cs)"

definition oneOrMore :: "rx \<Rightarrow> rx" where "oneOrMore r = Cat r (Star r)"
definition zeroOrOne :: "rx \<Rightarrow> rx" where "zeroOrOne r = Alt r Eps"

definition isReSpace :: "char \<Rightarrow> bool" where
  "isReSpace c = (c = CHR 0x09 \<or> c = CHR 0x0A \<or> c = CHR 0x0C \<or> c = CHR 0x0D \<or> c = CHR '' '')"

definition reSpace :: rx where "reSpace = Cls isReSpace"

definition keyChar :: rx where
  "keyChar = Cls isWordChar"

definition keyCharDash :: rx where
  "keyCharDash = Cls (\<lambda>x. isWordChar x \<or> x = CHR ''-'')"

definition sensitiveWord :: rx where
  "sensitiveWord =
     Alt (lit ''token'') (Alt (lit ''secret'') (Alt (lit ''password'') (Alt (lit ''passwd'')
       (Alt (Cat (lit ''api'') (Cat (zeroOrOne (Cls (\<lambda>x. x = CHR ''_'' \<or> x = CHR ''-''))) (lit ''key'')))
            (Cat (lit ''access'') (Cat (zeroOrOne (Cls (\<lambda>x. x = CHR ''_'' \<or> x = CHR ''-''))) (lit ''key'')))))))"

definition sensitiveWordOrAuthorization :: rx where
  "sensitiveWordOrAuthorization =
     Alt (lit ''token'') (Alt (lit ''secret'') (Alt (lit ''password'') (Alt (lit ''passwd'')
       (Alt (Cat (lit ''api'') (Cat (zeroOrOne (Cls (\<lambda>x. x = CHR ''_'' \<or> x = CHR ''-''))) (lit ''key'')))
         (Alt (Cat (lit ''access'') (Cat (zeroOrOne (Cls (\<lambda>x. x = CHR ''_'' \<or> x = CHR ''-''))) (lit ''key'')))
              (lit ''authorization''))))))"

definition unquotedChar :: rx where
  "unquotedChar = Cls (\<lambda>x. \<not> isReSpace x \<and> x \<noteq> CHR 0x22 \<and> x \<noteq> CHR 0x27)"

definition secretValue :: rx where
  "secretValue =
     Alt (oneOrMore unquotedChar)
       (Alt (Cat (Cls (\<lambda>x. x = CHR 0x22)) (Cat (Star (Cls (\<lambda>x. x \<noteq> CHR 0x22))) (Cls (\<lambda>x. x = CHR 0x22))))
            (Cat (Cls (\<lambda>x. x = CHR 0x27)) (Cat (Star (Cls (\<lambda>x. x \<noteq> CHR 0x27))) (Cls (\<lambda>x. x = CHR 0x27)))))"

definition shortFlag :: rx where
  "shortFlag = Cat (Cls (\<lambda>x. x = CHR ''-''))
     (Cls (\<lambda>x. toLowerChar x = CHR ''p'' \<or> toLowerChar x = CHR ''k'' \<or> toLowerChar x = CHR ''t''
              \<or> toLowerChar x = CHR ''s''))"

text \<open>The eight rules, in the order of the source, each with its replacement.\<close>

definition secretRedactionRules :: "(rx \<times> tpart list) list" where
  "secretRedactionRules =
     [ (Cat WordBoundary (Cat (Grp 1 (Cat (Star keyChar) (Cat sensitiveWord (Star keyChar))))
          (Cat (Star reSpace) (Cat (lit ''='') (Cat (Star reSpace) (Grp 2 secretValue))))),
        [Ref 1, Lit ''=<redacted>'']),
       (Cat WordBoundary (Cat (Grp 1 (Cat (Star keyChar) (Cat sensitiveWord (Star keyChar))))
          (Cat (Star reSpace) (Cat (lit '':'') (Cat (Star reSpace) (Grp 2 secretValue))))),
        [Ref 1, Lit ''=<redacted>'']),
       (Cat WordBoundary (Cat (Grp 1 (Cat (lit ''authorization'') (Cat (Star reSpace)
            (Cat (lit '':'') (Cat (Star reSpace) (lit ''bearer''))))))
          (Cat (oneOrMore reSpace) (Grp 2 (oneOrMore unquotedChar)))),
        [Ref 1, Lit '' <redacted>'']),
       (Cat WordBoundary (Cat (Grp 1 (Cat (Star keyCharDash) (Cat sensitiveWord (Star keyCharDash))))
          (Cat WordBoundary (Cat (oneOrMore reSpace) (Grp 2 secretValue)))),
        [Ref 1, Lit '' <redacted>'']),
       (Cat (Grp 1 (Cat (lit ''--'') (Cat (Star keyCharDash)
            (Cat sensitiveWordOrAuthorization (Star keyCharDash)))))
          (Cat (Star reSpace) (Cat (lit ''='') (Cat (Star reSpace) (Grp 2 secretValue)))),
        [Ref 1, Lit ''=<redacted>'']),
       (Cat (Grp 1 (Cat (lit ''--'') (Cat (Star keyCharDash)
            (Cat sensitiveWordOrAuthorization (Star keyCharDash)))))
          (Cat (oneOrMore reSpace) (Grp 2 secretValue)),
        [Ref 1, Lit '' <redacted>'']),
       (Cat (Grp 1 (Alt BeginText reSpace)) (Cat (Grp 2 shortFlag)
          (Cat (Star reSpace) (Cat (lit ''='') (Cat (Star reSpace) (Grp 3 secretValue))))),
        [Ref 1, Ref 2, Lit ''=<redacted>'']),
       (Cat (Grp 1 (Alt BeginText reSpace)) (Cat (Grp 2 shortFlag)
          (Cat (oneOrMore reSpace) (Grp 3 secretValue))),
        [Ref 1, Ref 2, Lit '' <redacted>'']) ]"

definition RedactText :: "string \<Rightarrow> string" where
  "RedactText input =
     fold (\<lambda>rule redacted. ReplaceAllString (fst rule) redacted (snd rule)) secretRedactionRules input"

text \<open>A value without quotes is replaced whole, and the flag is kept.\<close>

lemma redact_short_flag: "RedactText ''-p x'' = ''-p <redacted>''"
  by code_simp

subsection \<open>The claim about redaction\<close>

text \<open>
  C3. The claim says that no part of a matched secret value remains after \<open>RedactText\<close>,
  also for an unquoted value that contains a quote character. The unquoted alternative
  of the value pattern is \<^verbatim>\<open>[^\s"']+\<close> and stops at the first quote: for the input
  \<^verbatim>\<open>token=a'b\<close> only \<^verbatim>\<open>a\<close> is replaced, and the rest of the value, \<^verbatim>\<open>'b\<close>, stays
  in the output.
\<close>

theorem redact_stops_at_quote:
  "RedactText (''token=a'' @ [CHR 0x27] @ ''b'') = ''token=<redacted>'' @ [CHR 0x27] @ ''b''"
  by code_simp

section \<open>The history store\<close>

text \<open>
  \<^verbatim>\<open>history.Entry\<close>; its fields carry the prefix H. A \<^verbatim>\<open>time.Time\<close> is an instant,
  modelled as an integer count of nanoseconds: \<^verbatim>\<open>Equal\<close> and \<^verbatim>\<open>After\<close> compare
  instants.
\<close>

record HEntry =
  HCommand :: string
  HTimestamp :: int
  HSource :: string
  HOrder :: nat
  HApproxTS :: bool

text \<open>
  \<^verbatim>\<open>normalizeHistoryCommand\<close>: trim, strip trailing backslashes, strip the prompt clock
  that matches \<^verbatim>\<open>\s{2,}\d{1,2}:\d{2}$\<close>, trim. In the pattern, \<^verbatim>\<open>\s{2,}\<close> is two
  spaces and a star, and \<^verbatim>\<open>\d{1,2}\<close> a digit and an optional digit.
\<close>

definition promptClockSuffix :: rx where
  "promptClockSuffix =
     Cat reSpace (Cat reSpace (Cat (Star reSpace)
       (Cat (Cls isDigit) (Cat (zeroOrOne (Cls isDigit))
         (Cat (lit '':'') (Cat (Cls isDigit) (Cat (Cls isDigit) EndText)))))))"

definition normalizeHistoryCommand :: "string \<Rightarrow> string" where
  "normalizeHistoryCommand command =
     (let cmd = TrimSpace command in
      if cmd = [] then []
      else (let cmd1 = stripTrailingBackslashes cmd
            in TrimSpace (ReplaceAllString promptClockSuffix cmd1 [])))"

text \<open>
  The three filters of \<^verbatim>\<open>dedupeEntries\<close>. In \<open>isLikelyShellOutput\<close> the first rune is
  read from the first byte: a byte above 127 starts a rune beyond ASCII or an invalid
  one, and both are refused; on ASCII \<^verbatim>\<open>unicode.IsLetter\<close> and \<^verbatim>\<open>unicode.IsDigit\<close> are
  the ASCII letters and digits. \<open>Base\<close> is \<^verbatim>\<open>filepath.Base\<close> with the separator
  \<^verbatim>\<open>/\<close>. \<open>primaryTokenFrom\<close> is the loop of \<^verbatim>\<open>historyPrimaryCommandToken\<close> on the
  fields from the index on; it returns nothing when the loop runs off the end.
\<close>

definition isSensitiveCommand :: "string \<Rightarrow> bool" where
  "isSensitiveCommand command =
     (let low = ToLower (TrimSpace command) in
      containsAnyOf low [''export aws_session_token='', ''export aws_secret_access_key='',
        ''export aws_access_key_id='', ''aws_session_token='', ''aws_secret_access_key='',
        ''aws_access_key_id='', ''password='', ''passwd'', ''token='', ''secret='',
        ''private_key'', ''authorization: bearer''])"

definition isAsciiLetter :: "char \<Rightarrow> bool" where
  "isAsciiLetter c = (isUpper c \<or> (97 \<le> (of_char c :: nat) \<and> (of_char c :: nat) \<le> 122))"

definition isLikelyCommandStarter :: "char \<Rightarrow> bool" where
  "isLikelyCommandStarter r =
     (if isAsciiLetter r \<or> isDigit r then True
      else r = CHR ''.'' \<or> r = CHR ''/'' \<or> r = CHR ''_'' \<or> r = CHR ''~'')"

definition isEnumeratedOutputLine :: "string \<Rightarrow> bool" where
  "isEnumeratedOutputLine low =
     (let trimmed = TrimSpace low in
      if trimmed = [] then False
      else (let idx = length (takeWhile isDigit trimmed) in
            if idx = 0 \<or> idx + 1 \<ge> length trimmed then False
            else if trimmed ! idx = CHR ''.'' \<or> trimmed ! idx = CHR '')''
              then trimmed ! (idx + 1) = CHR '' ''
            else False))"

definition ContainsAny :: "string \<Rightarrow> string \<Rightarrow> bool" where
  "ContainsAny s chars = list_ex (\<lambda>c. c \<in> set chars) s"

definition looksLikeNarrativeOutput :: "string \<Rightarrow> string \<Rightarrow> bool" where
  "looksLikeNarrativeOutput trimmed low =
     (let flds = Fields low in
      if length flds < 7 then False
      else if \<not> ContainsAny low ''.!?'' then False
      else if Contains trimmed '' -'' then False
      else if ContainsAny trimmed (''|&;$<>'' @ [CHR 0x60]) then False
      else if Contains trimmed ''/'' \<or> Contains trimmed [CHR 0x5C] then False
      else (let commonWords = [''the'', ''this'', ''that'', ''is'', ''are'', ''was'', ''were'',
                  ''for'', ''with'', ''from'', ''and'', ''or'', ''to'', ''of'', ''in'', ''on'',
                  ''only'', ''directly'', ''matches'', ''request'', ''command'', ''candidates'',
                  ''operations'', ''unrelated''];
                commonCount = length (filter (\<lambda>field. Trim field punctCutset \<in> set commonWords) flds)
            in commonCount \<ge> 2))"

definition isLikelyToolName :: "string \<Rightarrow> bool" where
  "isLikelyToolName token =
     (token \<in> set [''npm'', ''pnpm'', ''yarn'', ''pip'', ''poetry'', ''go'', ''cargo'', ''aws'',
        ''terraform'', ''docker'', ''kubectl''])"

definition isLikelyShellOutput :: "string \<Rightarrow> bool" where
  "isLikelyShellOutput command =
     (let trimmed = TrimSpace command; low = ToLower trimmed in
      if low = [] then True
      else if (of_char (hd trimmed) :: nat) > 127 then True
      else if \<not> isLikelyCommandStarter (hd trimmed) then True
      else if isEnumeratedOutputLine low then True
      else if list_ex (\<lambda>prefix. HasPrefix low prefix)
           [''zsh:'', ''bash:'', ''fish:'', ''usage:'', ''error:'', ''fatal:'',
            ''suggested command:'', ''reason:'', ''source:'', ''tip:'', ''top matches for:'',
            ''cancelled. command not executed.''] then True
      else if Contains low ''command not found'' then True
      else if Contains low ''[error]'' then True
      else if Contains low ''do you want to'' then True
      else if Contains low ''worktree created'' \<or> Contains low ''created successfully'' then True
      else if Contains low ''run this command? [y/n]'' then True
      else if (let flds = Fields low in
               length flds \<ge> 2
               \<and> (flds ! 1 = ''error'' \<or> flds ! 1 = ''warn'' \<or> flds ! 1 = ''warning'')
               \<and> isLikelyToolName (flds ! 0)) then True
      else if looksLikeNarrativeOutput trimmed low then True
      else False)"

definition Base :: "string \<Rightarrow> string" where
  "Base path =
     (if path = [] then ''.''
      else (let path1 = rev (dropWhile (\<lambda>c. c = CHR ''/'') (rev path));
                path2 = rev (takeWhile (\<lambda>c. c \<noteq> CHR ''/'') (rev path1))
            in if path2 = [] then ''/'' else path2))"

definition historyIsEnvAssignmentToken :: "string \<Rightarrow> bool" where
  "historyIsEnvAssignmentToken token =
     (if HasPrefix token ''-'' then False
      else if CHR ''='' \<notin> set token \<or> takeWhile (\<lambda>c. c \<noteq> CHR ''='') token = [] then False
      else \<not> list_ex (\<lambda>c. c = CHR ''/'' \<or> c = CHR 0x5C) (takeWhile (\<lambda>c. c \<noteq> CHR ''='') token))"

function primaryTokenFrom :: "string list \<Rightarrow> string option" where
  "primaryTokenFrom [] = None"
| "primaryTokenFrom (field # rest) =
     (let token = TrimSpace field in
      if token = [] then primaryTokenFrom rest
      else if historyIsEnvAssignmentToken token then primaryTokenFrom rest
      else (let base = ToLower (Base token) in
        if base = ''env'' then
          primaryTokenFrom (dropWhile (\<lambda>f. TrimSpace f = [] \<or> HasPrefix (TrimSpace f) ''-''
                                          \<or> historyIsEnvAssignmentToken (TrimSpace f)) rest)
        else if base = ''sudo'' \<or> base = ''command'' \<or> base = ''time'' \<or> base = ''nohup''
                \<or> base = ''builtin'' then
          primaryTokenFrom (dropWhile (\<lambda>f. TrimSpace f = [] \<or> HasPrefix (TrimSpace f) ''-'') rest)
        else Some token))"
  by pat_completeness auto
termination
  by (relation "measure length") (auto simp: less_Suc_eq_le length_dropWhile_le)

definition historyPrimaryCommandToken :: "string list \<Rightarrow> string" where
  "historyPrimaryCommandToken flds =
     (if flds = [] then []
      else (case primaryTokenFrom flds of Some token \<Rightarrow> token | None \<Rightarrow> hd flds))"

definition isInternalCommand :: "string \<Rightarrow> bool" where
  "isInternalCommand command =
     (let trimmed = TrimSpace command in
      if trimmed = [] then True
      else (let low = ToLower trimmed in
        if Contains low ''go run ./cmd/ew'' \<or> Contains low ''go run ./cmd/_ew'' then True
        else (let flds = Fields trimmed in
          if flds = [] then True
          else (let first = historyPrimaryCommandToken flds;
                    base = ToLower (Base first)
                in base = ''ew'' \<or> base = ''_ew''))))"

text \<open>
  \<^verbatim>\<open>dedupeEntries\<close> keeps, in a map from the lower-cased command, the entry with the
  newest time (the higher ordinal when times are equal). The map is an association list
  here; Go iterates over its map in no fixed order, and the model takes the order of
  first insertion. \<^verbatim>\<open>LoadEntries\<close> numbers the entries of the loaders that succeeded in
  the order read (\<open>numberFrom\<close>), removes duplicates, sorts newest first and keeps at
  most 12000 entries. The argument of the model is what the loaders returned.
\<close>

definition historyNewer :: "HEntry \<Rightarrow> HEntry \<Rightarrow> bool" where
  "historyNewer a b =
     (if HTimestamp a = HTimestamp b then HOrder a > HOrder b else HTimestamp a > HTimestamp b)"

fun dedupeLoop :: "(string \<times> HEntry) list \<Rightarrow> HEntry list \<Rightarrow> (string \<times> HEntry) list" where
  "dedupeLoop latestByCommand [] = latestByCommand"
| "dedupeLoop latestByCommand (entry0 # rest) =
     (let cmd = normalizeHistoryCommand (HCommand entry0) in
      if cmd = [] then dedupeLoop latestByCommand rest
      else if isSensitiveCommand cmd then dedupeLoop latestByCommand rest
      else if isLikelyShellOutput cmd then dedupeLoop latestByCommand rest
      else if isInternalCommand cmd then dedupeLoop latestByCommand rest
      else (let key = ToLower cmd; entry = entry0\<lparr> HCommand := cmd \<rparr> in
        case map_of latestByCommand key of
          None \<Rightarrow> dedupeLoop (AList.update key entry latestByCommand) rest
        | Some current \<Rightarrow>
            if HTimestamp entry > HTimestamp current
               \<or> (HTimestamp entry = HTimestamp current \<and> HOrder entry > HOrder current)
            then dedupeLoop (AList.update key entry latestByCommand) rest
            else dedupeLoop latestByCommand rest))"

definition dedupeEntries :: "HEntry list \<Rightarrow> HEntry list" where
  "dedupeEntries entries = map snd (dedupeLoop [] entries)"

fun numberFrom :: "nat \<Rightarrow> HEntry list \<Rightarrow> HEntry list" where
  "numberFrom nextOrder [] = []"
| "numberFrom nextOrder (entry # rest) = entry\<lparr> HOrder := nextOrder \<rparr> # numberFrom (Suc nextOrder) rest"

definition LoadEntries :: "HEntry list list \<Rightarrow> HEntry list" where
  "LoadEntries loaded =
     (let entries = numberFrom 0 (concat loaded) in
      if entries = [] then []
      else (let sorted = sortSlice historyNewer (dedupeEntries entries)
            in if length sorted > 12000 then take 12000 sorted else sorted))"

subsection \<open>The invariant of the loop that removes duplicates\<close>

text \<open>
  For the proof: \<open>historyKeep\<close> says that a normalized command passes the filters,
  \<open>notNewer a b\<close> that \<open>a\<close> is older than \<open>b\<close> or as old with no higher ordinal, and
  \<open>cleaned\<close> is an entry with its command normalized. \<open>dedupeInv\<close> is the invariant of the
  loop of \<^verbatim>\<open>dedupeEntries\<close> over the entries processed so far: the keys of the map are
  distinct, every value is a cleaned processed entry that passes the filters and sits
  under its own lower-cased command, and every processed entry that passes the filters
  is not newer than the value under its key.
\<close>

definition historyKeep :: "string \<Rightarrow> bool" where
  "historyKeep cmd = (cmd \<noteq> [] \<and> \<not> isSensitiveCommand cmd \<and> \<not> isLikelyShellOutput cmd
     \<and> \<not> isInternalCommand cmd)"

definition notNewer :: "HEntry \<Rightarrow> HEntry \<Rightarrow> bool" where
  "notNewer a b = (HTimestamp a < HTimestamp b \<or> (HTimestamp a = HTimestamp b \<and> HOrder a \<le> HOrder b))"

definition cleaned :: "HEntry \<Rightarrow> HEntry" where
  "cleaned e = e\<lparr> HCommand := normalizeHistoryCommand (HCommand e) \<rparr>"

definition dedupeInv :: "(string \<times> HEntry) list \<Rightarrow> HEntry list \<Rightarrow> bool" where
  "dedupeInv latest processed =
     (distinct (map fst latest)
      \<and> (\<forall>k e. map_of latest k = Some e \<longrightarrow>
            k = ToLower (HCommand e) \<and> historyKeep (HCommand e) \<and> e \<in> cleaned ` set processed)
      \<and> (\<forall>e'\<in>set processed. historyKeep (normalizeHistoryCommand (HCommand e')) \<longrightarrow>
            (\<exists>e. map_of latest (ToLower (normalizeHistoryCommand (HCommand e'))) = Some e
                 \<and> notNewer e' e)))"

lemma notNewer_refl: "notNewer a a"
  by (simp add: notNewer_def)

lemma notNewer_trans: "notNewer a b \<Longrightarrow> notNewer b c \<Longrightarrow> notNewer a c"
  by (auto simp: notNewer_def)

lemma notNewer_cleaned: "notNewer a (cleaned a)" "notNewer (cleaned a) b = notNewer a b"
  by (simp_all add: notNewer_def cleaned_def)

lemma dedupe_step_skip:
  assumes "dedupeInv latest processed" "\<not> historyKeep (normalizeHistoryCommand (HCommand entry0))"
  shows "dedupeInv latest (processed @ [entry0])"
  using assms unfolding dedupeInv_def by auto

lemma dedupe_step_put:
  assumes inv: "dedupeInv latest processed"
      and keep: "historyKeep (normalizeHistoryCommand (HCommand entry0))"
      and newer: "\<forall>current. map_of latest (ToLower (normalizeHistoryCommand (HCommand entry0))) = Some current
                   \<longrightarrow> notNewer current (cleaned entry0)"
  shows "dedupeInv (AList.update (ToLower (normalizeHistoryCommand (HCommand entry0))) (cleaned entry0) latest)
           (processed @ [entry0])"
proof -
  define key where "key = ToLower (normalizeHistoryCommand (HCommand entry0))"
  define latest' where "latest' = AList.update key (cleaned entry0) latest"
  have m: "map_of latest' = (map_of latest)(key \<mapsto> cleaned entry0)"
    by (simp add: latest'_def update_conv')
  have d: "distinct (map fst latest')"
    using inv by (simp add: latest'_def dedupeInv_def distinct_update)
  have c: "HCommand (cleaned entry0) = normalizeHistoryCommand (HCommand entry0)"
    by (simp add: cleaned_def)
  have i2: "\<forall>k e. map_of latest' k = Some e \<longrightarrow>
            k = ToLower (HCommand e) \<and> historyKeep (HCommand e) \<and> e \<in> cleaned ` set (processed @ [entry0])"
    using inv keep unfolding dedupeInv_def m by (auto simp: c key_def)
  have i3: "\<forall>e'\<in>set (processed @ [entry0]). historyKeep (normalizeHistoryCommand (HCommand e')) \<longrightarrow>
            (\<exists>e. map_of latest' (ToLower (normalizeHistoryCommand (HCommand e'))) = Some e
                 \<and> notNewer e' e)"
  proof (intro ballI impI)
    fix e' assume e': "e' \<in> set (processed @ [entry0])"
      and k: "historyKeep (normalizeHistoryCommand (HCommand e'))"
    show "\<exists>e. map_of latest' (ToLower (normalizeHistoryCommand (HCommand e'))) = Some e \<and> notNewer e' e"
    proof (cases "ToLower (normalizeHistoryCommand (HCommand e')) = key")
      case True
      have "notNewer e' (cleaned entry0)"
      proof (cases "e' \<in> set processed")
        case True
        then obtain e where "map_of latest key = Some e" "notNewer e' e"
          using inv k \<open>ToLower (normalizeHistoryCommand (HCommand e')) = key\<close>
          unfolding dedupeInv_def by metis
        then show ?thesis using newer notNewer_trans unfolding key_def by blast
      next
        case False
        then have "e' = entry0" using e' by simp
        then show ?thesis by (simp add: notNewer_cleaned)
      qed
      then show ?thesis using True by (simp add: m)
    next
      case False
      then have "e' \<in> set processed" using e' by (auto simp: key_def)
      then show ?thesis using inv k False unfolding dedupeInv_def m by auto
    qed
  qed
  show ?thesis
    unfolding dedupeInv_def using d i2 i3 by (simp add: latest'_def key_def)
qed

lemma dedupe_step_keep:
  assumes inv: "dedupeInv latest processed"
      and keep: "historyKeep (normalizeHistoryCommand (HCommand entry0))"
      and cur: "map_of latest (ToLower (normalizeHistoryCommand (HCommand entry0))) = Some current"
      and older: "notNewer (cleaned entry0) current"
  shows "dedupeInv latest (processed @ [entry0])"
proof -
  have "\<forall>e'\<in>set (processed @ [entry0]). historyKeep (normalizeHistoryCommand (HCommand e')) \<longrightarrow>
            (\<exists>e. map_of latest (ToLower (normalizeHistoryCommand (HCommand e'))) = Some e
                 \<and> notNewer e' e)"
  proof (intro ballI impI)
    fix e' assume e': "e' \<in> set (processed @ [entry0])"
      and k: "historyKeep (normalizeHistoryCommand (HCommand e'))"
    show "\<exists>e. map_of latest (ToLower (normalizeHistoryCommand (HCommand e'))) = Some e \<and> notNewer e' e"
    proof (cases "e' \<in> set processed")
      case True
      then show ?thesis using inv k unfolding dedupeInv_def by blast
    next
      case False
      then have "e' = entry0" using e' by simp
      then show ?thesis using cur older by (simp add: notNewer_cleaned)
    qed
  qed
  then show ?thesis using inv unfolding dedupeInv_def by auto
qed

lemma dedupeLoop_inv:
  "dedupeInv latest processed \<Longrightarrow> dedupeInv (dedupeLoop latest rest) (processed @ rest)"
proof (induction rest arbitrary: latest processed)
  case Nil
  then show ?case by simp
next
  case (Cons entry0 rest)
  define cmd where "cmd = normalizeHistoryCommand (HCommand entry0)"
  have app: "processed @ entry0 # rest = (processed @ [entry0]) @ rest" by simp
  show ?case
  proof (cases "historyKeep cmd")
    case False
    then have "dedupeLoop latest (entry0 # rest) = dedupeLoop latest rest"
      by (auto simp: historyKeep_def cmd_def Let_def)
    moreover have "dedupeInv latest (processed @ [entry0])"
      using Cons.prems False by (simp add: dedupe_step_skip cmd_def)
    ultimately show ?thesis using Cons.IH app by metis
  next
    case True
    then have k: "cmd \<noteq> []" "\<not> isSensitiveCommand cmd" "\<not> isLikelyShellOutput cmd"
      "\<not> isInternalCommand cmd" by (simp_all add: historyKeep_def)
    have ent: "entry0\<lparr> HCommand := cmd \<rparr> = cleaned entry0" by (simp add: cleaned_def cmd_def)
    show ?thesis
    proof (cases "map_of latest (ToLower cmd)")
      case None
      then have "dedupeLoop latest (entry0 # rest)
          = dedupeLoop (AList.update (ToLower cmd) (cleaned entry0) latest) rest"
        using k by (simp add: cmd_def[symmetric] Let_def ent)
      moreover have "dedupeInv (AList.update (ToLower cmd) (cleaned entry0) latest) (processed @ [entry0])"
        unfolding cmd_def
        by (rule dedupe_step_put) (use Cons.prems True None in \<open>simp_all add: cmd_def\<close>)
      ultimately show ?thesis using Cons.IH app by metis
    next
      case (Some current)
      show ?thesis
      proof (cases "HTimestamp (cleaned entry0) > HTimestamp current
               \<or> (HTimestamp (cleaned entry0) = HTimestamp current \<and> HOrder (cleaned entry0) > HOrder current)")
        case newer: True
        then have "dedupeLoop latest (entry0 # rest)
            = dedupeLoop (AList.update (ToLower cmd) (cleaned entry0) latest) rest"
          using k Some by (simp add: cmd_def[symmetric] Let_def ent)
        moreover have "notNewer current (cleaned entry0)"
          using newer by (auto simp: notNewer_def)
        then have "dedupeInv (AList.update (ToLower cmd) (cleaned entry0) latest) (processed @ [entry0])"
          unfolding cmd_def
          by (intro dedupe_step_put) (use Cons.prems True Some in \<open>simp_all add: cmd_def\<close>)
        ultimately show ?thesis using Cons.IH app by metis
      next
        case older: False
        then have "dedupeLoop latest (entry0 # rest) = dedupeLoop latest rest"
          using k Some by (auto simp: cmd_def[symmetric] Let_def ent)
        moreover have "notNewer (cleaned entry0) current"
          using older by (auto simp: notNewer_def)
        then have "dedupeInv latest (processed @ [entry0])"
          using dedupe_step_keep[OF Cons.prems, of entry0 current] True Some by (simp add: cmd_def)
        ultimately show ?thesis using Cons.IH app by metis
      qed
    qed
  qed
qed


lemma dedupeInv_empty: "dedupeInv [] []"
  by (simp add: dedupeInv_def)

lemma dedupeInv_result: "dedupeInv (dedupeLoop [] entries) entries"
  using dedupeLoop_inv[OF dedupeInv_empty, of entries] by simp

lemma dedupeEntries_mem:
  "e \<in> set (dedupeEntries entries) \<longleftrightarrow>
     map_of (dedupeLoop [] entries) (ToLower (HCommand e)) = Some e"
proof -
  define L where "L = dedupeLoop [] entries"
  have inv: "dedupeInv L entries" unfolding L_def by (rule dedupeInv_result)
  then have d: "distinct (map fst L)" by (simp add: dedupeInv_def)
  have key: "map_of L k = Some x \<Longrightarrow> k = ToLower (HCommand x)" for k x
    using inv unfolding dedupeInv_def by blast
  have "e \<in> set (map snd L) \<longleftrightarrow> (\<exists>k. (k, e) \<in> set L)" by force
  also have "\<dots> \<longleftrightarrow> (\<exists>k. map_of L k = Some e)" using d by simp
  also have "\<dots> \<longleftrightarrow> map_of L (ToLower (HCommand e)) = Some e" using key by blast
  finally show ?thesis by (simp add: dedupeEntries_def L_def)
qed

lemma dedupeEntries_distinct:
  "distinct (map (\<lambda>e. ToLower (HCommand e)) (dedupeEntries entries))"
proof -
  define L where "L = dedupeLoop [] entries"
  have inv: "dedupeInv L entries" unfolding L_def by (rule dedupeInv_result)
  then have d: "distinct (map fst L)" by (simp add: dedupeInv_def)
  have "\<forall>p\<in>set L. fst p = ToLower (HCommand (snd p))"
  proof
    fix p assume "p \<in> set L"
    then have "map_of L (fst p) = Some (snd p)" using d by simp
    then show "fst p = ToLower (HCommand (snd p))" using inv unfolding dedupeInv_def by blast
  qed
  then have "map (\<lambda>e. ToLower (HCommand e)) (map snd L) = map fst L" by simp
  then have "distinct (map (\<lambda>e. ToLower (HCommand e)) (map snd L))" using d by metis
  then show ?thesis unfolding dedupeEntries_def L_def .
qed

lemma dedupeEntries_props:
  assumes "e \<in> set (dedupeEntries entries)"
  shows "historyKeep (HCommand e)" "e \<in> cleaned ` set entries"
    "\<forall>e'\<in>set entries. historyKeep (normalizeHistoryCommand (HCommand e'))
        \<and> ToLower (normalizeHistoryCommand (HCommand e')) = ToLower (HCommand e)
        \<longrightarrow> notNewer e' e"
proof -
  have m: "map_of (dedupeLoop [] entries) (ToLower (HCommand e)) = Some e"
    using assms by (simp add: dedupeEntries_mem)
  have inv: "dedupeInv (dedupeLoop [] entries) entries" by (rule dedupeInv_result)
  show "historyKeep (HCommand e)" "e \<in> cleaned ` set entries"
    using inv m unfolding dedupeInv_def by blast+
  show "\<forall>e'\<in>set entries. historyKeep (normalizeHistoryCommand (HCommand e'))
        \<and> ToLower (normalizeHistoryCommand (HCommand e')) = ToLower (HCommand e)
        \<longrightarrow> notNewer e' e"
  proof (intro ballI impI)
    fix e' assume "e' \<in> set entries"
      and "historyKeep (normalizeHistoryCommand (HCommand e'))
        \<and> ToLower (normalizeHistoryCommand (HCommand e')) = ToLower (HCommand e)"
    then obtain x where "map_of (dedupeLoop [] entries) (ToLower (HCommand e)) = Some x" "notNewer e' x"
      using inv unfolding dedupeInv_def by metis
    then show "notNewer e' e" using m by simp
  qed
qed

lemma historyNewer_asym: "historyNewer a b \<Longrightarrow> \<not> historyNewer b a"
  by (auto simp: historyNewer_def split: if_splits)

lemma historyNewer_ntrans: "\<not> historyNewer a b \<Longrightarrow> \<not> historyNewer b c \<Longrightarrow> \<not> historyNewer a c"
  by (auto simp: historyNewer_def split: if_splits)

lemma not_historyNewer: "\<not> historyNewer b a \<longleftrightarrow> notNewer b a"
  by (auto simp: historyNewer_def notNewer_def)

lemma map_HOrder_numberFrom: "map HOrder (numberFrom n xs) = [n ..< n + length xs]"
  by (induction xs arbitrary: n) (auto simp: upt_rec)

lemma LoadEntries_subset:
  "set (LoadEntries loaded) \<subseteq> set (dedupeEntries (numberFrom 0 (concat loaded)))"
  by (auto simp: LoadEntries_def Let_def set_sortSlice dedupeEntries_def dest: in_set_takeD)

lemma LoadEntries_length: "length (LoadEntries loaded) \<le> 12000"
  by (simp add: LoadEntries_def Let_def)

lemma LoadEntries_sorted: "sorted_wrt (\<lambda>a b. notNewer b a) (LoadEntries loaded)"
proof -
  have "sorted_wrt (\<lambda>a b. \<not> historyNewer b a) (sortSlice historyNewer xs)" for xs
  proof (rule sorted_sortSlice)
    show "\<And>a b. historyNewer a b \<Longrightarrow> \<not> historyNewer b a" by (rule historyNewer_asym)
    show "\<And>a b c. \<not> historyNewer a b \<Longrightarrow> \<not> historyNewer b c \<Longrightarrow> \<not> historyNewer a c"
      by (rule historyNewer_ntrans)
  qed
  then have "sorted_wrt (\<lambda>a b. notNewer b a) (sortSlice historyNewer xs)" for xs
    by (simp add: not_historyNewer)
  then show ?thesis
    by (auto simp: LoadEntries_def Let_def intro: sorted_wrt_take)
qed

lemma LoadEntries_distinct: "distinct (map (\<lambda>e. ToLower (HCommand e)) (LoadEntries loaded))"
proof -
  have d: "distinct (map (\<lambda>e. ToLower (HCommand e))
             (sortSlice historyNewer (dedupeEntries (numberFrom 0 (concat loaded)))))"
    by (simp add: distinct_map_sortSlice dedupeEntries_distinct)
  then have "distinct (map (\<lambda>e. ToLower (HCommand e))
             (take 12000 (sortSlice historyNewer (dedupeEntries (numberFrom 0 (concat loaded))))))"
    by (simp add: take_map[symmetric])
  then show ?thesis using d by (simp add: LoadEntries_def Let_def)
qed

text \<open>
  The order in which Go iterates over the map does not matter: the ordinals are distinct,
  so the comparison is a strict total order on the entries kept, and every listing of
  them sorts to the same list.
\<close>

lemma sorted_wrt_unique:
  assumes "sorted_wrt R xs" "sorted_wrt R ys" "distinct xs" "distinct ys" "set xs = set ys"
      and "\<And>a b. a \<in> set xs \<Longrightarrow> b \<in> set xs \<Longrightarrow> R a b \<Longrightarrow> R b a \<Longrightarrow> a = b"
  shows "xs = ys"
  using assms
proof (induction xs arbitrary: ys)
  case Nil
  then show ?case by simp
next
  case (Cons x xs)
  then obtain y ys' where ys: "ys = y # ys'" by (cases ys) auto
  have xy: "x = y"
  proof (rule ccontr)
    assume ne: "x \<noteq> y"
    have "x \<in> set ys'" using Cons.prems(5) ne ys by auto
    then have 1: "R y x" using Cons.prems(2) ys by simp
    have "y \<in> set xs" using Cons.prems(5) ne ys by auto
    then have 2: "R x y" using Cons.prems(1) by simp
    have "y \<in> set (x # xs)" using Cons.prems(5) ys by simp
    then show False using Cons.prems(6)[of x y] 1 2 ne by simp
  qed
  have "set xs = set ys'"
    using Cons.prems(3,4,5) ys xy by auto
  then have "xs = ys'"
    using Cons.IH[of ys'] Cons.prems ys by simp
  then show ?case using xy ys by simp
qed

lemma distinct_sortSlice: "distinct (sortSlice lt xs) \<longleftrightarrow> distinct xs"
  using distinct_map_sortSlice[of "\<lambda>x. x" lt xs] by simp

lemma dedupeEntries_order_independent:
  assumes "distinct ys" "set ys = set (dedupeEntries (numberFrom 0 es))"
  shows "sortSlice historyNewer ys = sortSlice historyNewer (dedupeEntries (numberFrom 0 es))"
proof (rule sorted_wrt_unique[where R = "\<lambda>a b. notNewer b a"])
  have srt: "sorted_wrt (\<lambda>a b. notNewer b a) (sortSlice historyNewer xs)" for xs
  proof -
    have "sorted_wrt (\<lambda>a b. \<not> historyNewer b a) (sortSlice historyNewer xs)"
    proof (rule sorted_sortSlice)
      show "\<And>a b. historyNewer a b \<Longrightarrow> \<not> historyNewer b a" by (rule historyNewer_asym)
      show "\<And>a b c. \<not> historyNewer a b \<Longrightarrow> \<not> historyNewer b c \<Longrightarrow> \<not> historyNewer a c"
        by (rule historyNewer_ntrans)
    qed
    then show ?thesis by (simp add: not_historyNewer)
  qed
  show "sorted_wrt (\<lambda>a b. notNewer b a) (sortSlice historyNewer ys)" by (rule srt)
  show "sorted_wrt (\<lambda>a b. notNewer b a) (sortSlice historyNewer (dedupeEntries (numberFrom 0 es)))"
    by (rule srt)
  show "distinct (sortSlice historyNewer ys)" using assms(1) by (simp add: distinct_sortSlice)
  have "distinct (map (\<lambda>e. ToLower (HCommand e)) (dedupeEntries (numberFrom 0 es)))"
    by (rule dedupeEntries_distinct)
  then have "distinct (dedupeEntries (numberFrom 0 es))" by (simp add: distinct_map)
  then show "distinct (sortSlice historyNewer (dedupeEntries (numberFrom 0 es)))"
    by (simp add: distinct_sortSlice)
  show "set (sortSlice historyNewer ys) = set (sortSlice historyNewer (dedupeEntries (numberFrom 0 es)))"
    using assms(2) by (simp add: set_sortSlice)
  fix a b
  assume a: "a \<in> set (sortSlice historyNewer ys)" and b: "b \<in> set (sortSlice historyNewer ys)"
    and ab: "notNewer b a" and ba: "notNewer a b"
  have o: "HOrder a = HOrder b" using ab ba by (auto simp: notNewer_def)
  have "a \<in> set (dedupeEntries (numberFrom 0 es))" using a assms(2) by (simp add: set_sortSlice)
  then have "a \<in> cleaned ` set (numberFrom 0 es)" by (rule dedupeEntries_props(2))
  then obtain a0 where a0: "a0 \<in> set (numberFrom 0 es)" "a = cleaned a0" by blast
  have "b \<in> set (dedupeEntries (numberFrom 0 es))" using b assms(2) by (simp add: set_sortSlice)
  then have "b \<in> cleaned ` set (numberFrom 0 es)" by (rule dedupeEntries_props(2))
  then obtain b0 where b0: "b0 \<in> set (numberFrom 0 es)" "b = cleaned b0" by blast
  have "distinct (map HOrder (numberFrom 0 es))" by (simp add: map_HOrder_numberFrom)
  then have "inj_on HOrder (set (numberFrom 0 es))" by (simp add: distinct_map)
  moreover have "HOrder a0 = HOrder b0" using o a0 b0 by (simp add: cleaned_def)
  ultimately have "a0 = b0" using a0 b0 by (auto dest: inj_onD)
  then show "a = b" using a0 b0 by simp
qed

lemma dedupeEntries_exists:
  assumes "e' \<in> set entries" "historyKeep (normalizeHistoryCommand (HCommand e'))"
  shows "\<exists>e\<in>set (dedupeEntries entries).
           ToLower (HCommand e) = ToLower (normalizeHistoryCommand (HCommand e')) \<and> notNewer e' e"
proof -
  have inv: "dedupeInv (dedupeLoop [] entries) entries" by (rule dedupeInv_result)
  then obtain e where e: "map_of (dedupeLoop [] entries)
        (ToLower (normalizeHistoryCommand (HCommand e'))) = Some e" "notNewer e' e"
    using assms unfolding dedupeInv_def by blast
  have k: "ToLower (normalizeHistoryCommand (HCommand e')) = ToLower (HCommand e)"
    using inv e(1) unfolding dedupeInv_def by blast
  then have "e \<in> set (dedupeEntries entries)"
    using e(1) by (simp add: dedupeEntries_mem)
  then show ?thesis using k e(2) by auto
qed

lemma sorted_history: "sorted_wrt (\<lambda>a b. notNewer b a) (sortSlice historyNewer xs)"
proof -
  have "sorted_wrt (\<lambda>a b. \<not> historyNewer b a) (sortSlice historyNewer xs)"
  proof (rule sorted_sortSlice)
    show "\<And>a b. historyNewer a b \<Longrightarrow> \<not> historyNewer b a" by (rule historyNewer_asym)
    show "\<And>a b c. \<not> historyNewer a b \<Longrightarrow> \<not> historyNewer b c \<Longrightarrow> \<not> historyNewer a c"
      by (rule historyNewer_ntrans)
  qed
  then show ?thesis by (simp add: not_historyNewer)
qed

lemma LoadEntries_take:
  "LoadEntries loaded
     = take 12000 (sortSlice historyNewer (dedupeEntries (numberFrom 0 (concat loaded))))"
proof (cases "numberFrom 0 (concat loaded) = []")
  case True
  then show ?thesis by (simp add: LoadEntries_def dedupeEntries_def sortSlice_def)
next
  case False
  then show ?thesis by (simp add: LoadEntries_def Let_def)
qed

text \<open>
  The list before the cut: sorted newest first, one entry for every command read that
  passes the filters, each a cleaned entry read. The result is its first 12000 entries.
\<close>

lemma LoadEntries_complete:
  "\<exists>rest. sorted_wrt (\<lambda>a b. notNewer b a) (LoadEntries loaded @ rest)
       \<and> distinct (map (\<lambda>e. ToLower (HCommand e)) (LoadEntries loaded @ rest))
       \<and> length (LoadEntries loaded) = min 12000 (length (LoadEntries loaded @ rest))
       \<and> (\<forall>e\<in>set rest. historyKeep (HCommand e) \<and> e \<in> cleaned ` set (numberFrom 0 (concat loaded)))
       \<and> (\<forall>e'\<in>set (numberFrom 0 (concat loaded)).
             historyKeep (normalizeHistoryCommand (HCommand e')) \<longrightarrow>
             (\<exists>e\<in>set (LoadEntries loaded @ rest).
                ToLower (HCommand e) = ToLower (normalizeHistoryCommand (HCommand e'))
                \<and> notNewer e' e))"
proof -
  define D where "D = dedupeEntries (numberFrom 0 (concat loaded))"
  define S where "S = sortSlice historyNewer D"
  have L: "LoadEntries loaded = take 12000 S"
    unfolding S_def D_def by (rule LoadEntries_take)
  have a: "LoadEntries loaded @ drop 12000 S = S" unfolding L by simp
  have sS: "sorted_wrt (\<lambda>a b. notNewer b a) S"
    unfolding S_def by (rule sorted_history)
  have dS: "distinct (map (\<lambda>e. ToLower (HCommand e)) S)"
    unfolding S_def D_def by (simp add: distinct_map_sortSlice dedupeEntries_distinct)
  have 1: "sorted_wrt (\<lambda>a b. notNewer b a) (LoadEntries loaded @ drop 12000 S)"
    unfolding a by (rule sS)
  have 2: "distinct (map (\<lambda>e. ToLower (HCommand e)) (LoadEntries loaded @ drop 12000 S))"
    unfolding a by (rule dS)
  have 3: "length (LoadEntries loaded) = min 12000 (length (LoadEntries loaded @ drop 12000 S))"
    unfolding a unfolding L by (simp add: min.commute)
  have setS: "set S = set D" by (simp add: S_def set_sortSlice)
  have 4: "\<forall>e\<in>set (drop 12000 S). historyKeep (HCommand e)
             \<and> e \<in> cleaned ` set (numberFrom 0 (concat loaded))"
  proof
    fix e assume "e \<in> set (drop 12000 S)"
    then have "e \<in> set D" using setS by (auto dest: in_set_dropD)
    then show "historyKeep (HCommand e) \<and> e \<in> cleaned ` set (numberFrom 0 (concat loaded))"
      unfolding D_def using dedupeEntries_props(1,2) by blast
  qed
  have 5: "\<forall>e'\<in>set (numberFrom 0 (concat loaded)).
             historyKeep (normalizeHistoryCommand (HCommand e')) \<longrightarrow>
             (\<exists>e\<in>set (LoadEntries loaded @ drop 12000 S).
                ToLower (HCommand e) = ToLower (normalizeHistoryCommand (HCommand e'))
                \<and> notNewer e' e)"
  proof (intro ballI impI)
    fix e' assume "e' \<in> set (numberFrom 0 (concat loaded))"
      "historyKeep (normalizeHistoryCommand (HCommand e'))"
    then obtain e where "e \<in> set D"
      "ToLower (HCommand e) = ToLower (normalizeHistoryCommand (HCommand e'))" "notNewer e' e"
      unfolding D_def using dedupeEntries_exists by blast
    then show "\<exists>e\<in>set (LoadEntries loaded @ drop 12000 S).
                ToLower (HCommand e) = ToLower (normalizeHistoryCommand (HCommand e'))
                \<and> notNewer e' e"
      unfolding a setS by blast
  qed
  show ?thesis using 1 2 3 4 5 by blast
qed

subsection \<open>The claim about the loaded entries\<close>

text \<open>
  C7. The list returned by \<open>LoadEntries\<close> has at most 12000 entries and is ordered most
  recent first (by time, then by ordinal, descending). No two returned entries have the
  same lower-cased command. The ordinals given to the entries read are distinct. Every
  returned entry has a command that is not empty, not sensitive, not like shell output
  and not an invocation of the tool itself; it is one of the entries read, with its
  command normalized; and every entry read whose normalized command passes the filters
  and has the same lower-cased command is older than it, or as old with no higher
  ordinal. Nothing is lost but by the cut at 12000: the returned list, followed by the
  entries cut off, is ordered most recent first, has exactly one entry for every
  lower-cased command read that passes the filters, that entry being at least as new as
  every entry read with this command, and the entries cut off are there only when 12000
  entries are returned. So when fewer than 12000 entries are returned, every command
  read that passes the filters has exactly one entry in the result, and a command is
  missing from a full result only if every returned entry is at least as new as it.
\<close>

theorem load_entries_properties:
  "length (LoadEntries loaded) \<le> 12000
   \<and> sorted_wrt (\<lambda>a b. HTimestamp b < HTimestamp a
                       \<or> (HTimestamp b = HTimestamp a \<and> HOrder b \<le> HOrder a)) (LoadEntries loaded)
   \<and> distinct (map (\<lambda>e. ToLower (HCommand e)) (LoadEntries loaded))
   \<and> distinct (map HOrder (numberFrom 0 (concat loaded)))
   \<and> (\<forall>e\<in>set (LoadEntries loaded).
        HCommand e \<noteq> [] \<and> \<not> isSensitiveCommand (HCommand e)
        \<and> \<not> isLikelyShellOutput (HCommand e) \<and> \<not> isInternalCommand (HCommand e)
        \<and> (\<exists>e0\<in>set (numberFrom 0 (concat loaded)).
              e = e0\<lparr> HCommand := normalizeHistoryCommand (HCommand e0) \<rparr>)
        \<and> (\<forall>e'\<in>set (numberFrom 0 (concat loaded)).
              normalizeHistoryCommand (HCommand e') \<noteq> []
              \<and> \<not> isSensitiveCommand (normalizeHistoryCommand (HCommand e'))
              \<and> \<not> isLikelyShellOutput (normalizeHistoryCommand (HCommand e'))
              \<and> \<not> isInternalCommand (normalizeHistoryCommand (HCommand e'))
              \<and> ToLower (normalizeHistoryCommand (HCommand e')) = ToLower (HCommand e)
              \<longrightarrow> HTimestamp e' < HTimestamp e
                  \<or> (HTimestamp e' = HTimestamp e \<and> HOrder e' \<le> HOrder e)))
   \<and> (\<exists>rest.
        sorted_wrt (\<lambda>a b. HTimestamp b < HTimestamp a
                       \<or> (HTimestamp b = HTimestamp a \<and> HOrder b \<le> HOrder a))
          (LoadEntries loaded @ rest)
        \<and> distinct (map (\<lambda>e. ToLower (HCommand e)) (LoadEntries loaded @ rest))
        \<and> length (LoadEntries loaded) = min 12000 (length (LoadEntries loaded @ rest))
        \<and> (\<forall>e'\<in>set (numberFrom 0 (concat loaded)).
              normalizeHistoryCommand (HCommand e') \<noteq> []
              \<and> \<not> isSensitiveCommand (normalizeHistoryCommand (HCommand e'))
              \<and> \<not> isLikelyShellOutput (normalizeHistoryCommand (HCommand e'))
              \<and> \<not> isInternalCommand (normalizeHistoryCommand (HCommand e'))
              \<longrightarrow> (\<exists>e\<in>set (LoadEntries loaded @ rest).
                     ToLower (HCommand e) = ToLower (normalizeHistoryCommand (HCommand e'))
                     \<and> (HTimestamp e' < HTimestamp e
                        \<or> (HTimestamp e' = HTimestamp e \<and> HOrder e' \<le> HOrder e)))))
   \<and> (length (LoadEntries loaded) < 12000 \<longrightarrow>
        (\<forall>e'\<in>set (numberFrom 0 (concat loaded)).
              normalizeHistoryCommand (HCommand e') \<noteq> []
              \<and> \<not> isSensitiveCommand (normalizeHistoryCommand (HCommand e'))
              \<and> \<not> isLikelyShellOutput (normalizeHistoryCommand (HCommand e'))
              \<and> \<not> isInternalCommand (normalizeHistoryCommand (HCommand e'))
              \<longrightarrow> (\<exists>e\<in>set (LoadEntries loaded).
                     ToLower (HCommand e) = ToLower (normalizeHistoryCommand (HCommand e')))))"
proof -
  have s: "sorted_wrt (\<lambda>a b. HTimestamp b < HTimestamp a
                       \<or> (HTimestamp b = HTimestamp a \<and> HOrder b \<le> HOrder a)) (LoadEntries loaded)"
    using LoadEntries_sorted[of loaded] by (simp add: notNewer_def)
  have o: "distinct (map HOrder (numberFrom 0 (concat loaded)))"
    by (simp add: map_HOrder_numberFrom)
  have e: "\<forall>e\<in>set (LoadEntries loaded).
        HCommand e \<noteq> [] \<and> \<not> isSensitiveCommand (HCommand e)
        \<and> \<not> isLikelyShellOutput (HCommand e) \<and> \<not> isInternalCommand (HCommand e)
        \<and> (\<exists>e0\<in>set (numberFrom 0 (concat loaded)).
              e = e0\<lparr> HCommand := normalizeHistoryCommand (HCommand e0) \<rparr>)
        \<and> (\<forall>e'\<in>set (numberFrom 0 (concat loaded)).
              normalizeHistoryCommand (HCommand e') \<noteq> []
              \<and> \<not> isSensitiveCommand (normalizeHistoryCommand (HCommand e'))
              \<and> \<not> isLikelyShellOutput (normalizeHistoryCommand (HCommand e'))
              \<and> \<not> isInternalCommand (normalizeHistoryCommand (HCommand e'))
              \<and> ToLower (normalizeHistoryCommand (HCommand e')) = ToLower (HCommand e)
              \<longrightarrow> HTimestamp e' < HTimestamp e
                  \<or> (HTimestamp e' = HTimestamp e \<and> HOrder e' \<le> HOrder e))"
  proof
    fix e assume "e \<in> set (LoadEntries loaded)"
    then have m: "e \<in> set (dedupeEntries (numberFrom 0 (concat loaded)))"
      using LoadEntries_subset by blast
    from dedupeEntries_props[OF m]
    show "HCommand e \<noteq> [] \<and> \<not> isSensitiveCommand (HCommand e)
        \<and> \<not> isLikelyShellOutput (HCommand e) \<and> \<not> isInternalCommand (HCommand e)
        \<and> (\<exists>e0\<in>set (numberFrom 0 (concat loaded)).
              e = e0\<lparr> HCommand := normalizeHistoryCommand (HCommand e0) \<rparr>)
        \<and> (\<forall>e'\<in>set (numberFrom 0 (concat loaded)).
              normalizeHistoryCommand (HCommand e') \<noteq> []
              \<and> \<not> isSensitiveCommand (normalizeHistoryCommand (HCommand e'))
              \<and> \<not> isLikelyShellOutput (normalizeHistoryCommand (HCommand e'))
              \<and> \<not> isInternalCommand (normalizeHistoryCommand (HCommand e'))
              \<and> ToLower (normalizeHistoryCommand (HCommand e')) = ToLower (HCommand e)
              \<longrightarrow> HTimestamp e' < HTimestamp e
                  \<or> (HTimestamp e' = HTimestamp e \<and> HOrder e' \<le> HOrder e))"
      unfolding historyKeep_def notNewer_def cleaned_def by blast
  qed
  obtain rest where r:
    "sorted_wrt (\<lambda>a b. notNewer b a) (LoadEntries loaded @ rest)"
    "distinct (map (\<lambda>e. ToLower (HCommand e)) (LoadEntries loaded @ rest))"
    "length (LoadEntries loaded) = min 12000 (length (LoadEntries loaded @ rest))"
    "\<forall>e'\<in>set (numberFrom 0 (concat loaded)).
             historyKeep (normalizeHistoryCommand (HCommand e')) \<longrightarrow>
             (\<exists>e\<in>set (LoadEntries loaded @ rest).
                ToLower (HCommand e) = ToLower (normalizeHistoryCommand (HCommand e'))
                \<and> notNewer e' e)"
    using LoadEntries_complete[of loaded] by blast
  have c: "\<exists>rest.
        sorted_wrt (\<lambda>a b. HTimestamp b < HTimestamp a
                       \<or> (HTimestamp b = HTimestamp a \<and> HOrder b \<le> HOrder a))
          (LoadEntries loaded @ rest)
        \<and> distinct (map (\<lambda>e. ToLower (HCommand e)) (LoadEntries loaded @ rest))
        \<and> length (LoadEntries loaded) = min 12000 (length (LoadEntries loaded @ rest))
        \<and> (\<forall>e'\<in>set (numberFrom 0 (concat loaded)).
              normalizeHistoryCommand (HCommand e') \<noteq> []
              \<and> \<not> isSensitiveCommand (normalizeHistoryCommand (HCommand e'))
              \<and> \<not> isLikelyShellOutput (normalizeHistoryCommand (HCommand e'))
              \<and> \<not> isInternalCommand (normalizeHistoryCommand (HCommand e'))
              \<longrightarrow> (\<exists>e\<in>set (LoadEntries loaded @ rest).
                     ToLower (HCommand e) = ToLower (normalizeHistoryCommand (HCommand e'))
                     \<and> (HTimestamp e' < HTimestamp e
                        \<or> (HTimestamp e' = HTimestamp e \<and> HOrder e' \<le> HOrder e))))"
    using r unfolding historyKeep_def notNewer_def by (intro exI[of _ rest]) blast
  have u: "length (LoadEntries loaded) < 12000 \<longrightarrow>
        (\<forall>e'\<in>set (numberFrom 0 (concat loaded)).
              normalizeHistoryCommand (HCommand e') \<noteq> []
              \<and> \<not> isSensitiveCommand (normalizeHistoryCommand (HCommand e'))
              \<and> \<not> isLikelyShellOutput (normalizeHistoryCommand (HCommand e'))
              \<and> \<not> isInternalCommand (normalizeHistoryCommand (HCommand e'))
              \<longrightarrow> (\<exists>e\<in>set (LoadEntries loaded).
                     ToLower (HCommand e) = ToLower (normalizeHistoryCommand (HCommand e'))))"
  proof (intro impI)
    assume lt: "length (LoadEntries loaded) < 12000"
    have "length (LoadEntries loaded) = min 12000 (length (LoadEntries loaded) + length rest)"
      using r(3) by (simp only: length_append)
    then have "length rest = 0" using lt by arith
    then have "rest = []" by simp
    then show "\<forall>e'\<in>set (numberFrom 0 (concat loaded)).
              normalizeHistoryCommand (HCommand e') \<noteq> []
              \<and> \<not> isSensitiveCommand (normalizeHistoryCommand (HCommand e'))
              \<and> \<not> isLikelyShellOutput (normalizeHistoryCommand (HCommand e'))
              \<and> \<not> isInternalCommand (normalizeHistoryCommand (HCommand e'))
              \<longrightarrow> (\<exists>e\<in>set (LoadEntries loaded).
                     ToLower (HCommand e) = ToLower (normalizeHistoryCommand (HCommand e')))"
      using r(4) unfolding historyKeep_def by auto
  qed
  show ?thesis
    using LoadEntries_length[of loaded] s LoadEntries_distinct[of loaded] o e c u by blast
qed

text \<open>
  Two spellings of \<^verbatim>\<open>git status\<close> and an invocation of the tool: the newer spelling
  is the only entry returned, and it stands for the older spelling as well.
\<close>

theorem load_entries_properties_witness:
  "LoadEntries [[\<lparr> HCommand = ''git status'', HTimestamp = 5, HSource = ''zsh'', HOrder = 0, HApproxTS = False \<rparr>,
                 \<lparr> HCommand = ''ew x'', HTimestamp = 9, HSource = ''zsh'', HOrder = 0, HApproxTS = False \<rparr>],
                [\<lparr> HCommand = ''Git Status'', HTimestamp = 7, HSource = ''bash'', HOrder = 0, HApproxTS = False \<rparr>]]
     = [\<lparr> HCommand = ''Git Status'', HTimestamp = 7, HSource = ''bash'', HOrder = 2, HApproxTS = False \<rparr>]
   \<and> \<not> isInternalCommand ''Git Status''
   \<and> (\<exists>e\<in>set (LoadEntries [[\<lparr> HCommand = ''git status'', HTimestamp = 5, HSource = ''zsh'', HOrder = 0, HApproxTS = False \<rparr>,
                 \<lparr> HCommand = ''ew x'', HTimestamp = 9, HSource = ''zsh'', HOrder = 0, HApproxTS = False \<rparr>],
                [\<lparr> HCommand = ''Git Status'', HTimestamp = 7, HSource = ''bash'', HOrder = 0, HApproxTS = False \<rparr>]]).
         ToLower (HCommand e) = ''git status'')
   \<and> length (LoadEntries [[\<lparr> HCommand = ''git status'', HTimestamp = 5, HSource = ''zsh'', HOrder = 0, HApproxTS = False \<rparr>,
                 \<lparr> HCommand = ''ew x'', HTimestamp = 9, HSource = ''zsh'', HOrder = 0, HApproxTS = False \<rparr>],
                [\<lparr> HCommand = ''Git Status'', HTimestamp = 7, HSource = ''bash'', HOrder = 0, HApproxTS = False \<rparr>]])
       \<le> 12000"
proof -
  let ?X = "[[\<lparr> HCommand = ''git status'', HTimestamp = 5, HSource = ''zsh'', HOrder = 0, HApproxTS = False \<rparr>,
                 \<lparr> HCommand = ''ew x'', HTimestamp = 9, HSource = ''zsh'', HOrder = 0, HApproxTS = False \<rparr>],
                [\<lparr> HCommand = ''Git Status'', HTimestamp = 7, HSource = ''bash'', HOrder = 0, HApproxTS = False \<rparr>]]"
  let ?g = "\<lparr> HCommand = ''git status'', HTimestamp = 5, HSource = ''zsh'', HOrder = 0, HApproxTS = False \<rparr>"
  have L: "LoadEntries ?X
     = [\<lparr> HCommand = ''Git Status'', HTimestamp = 7, HSource = ''bash'', HOrder = 2, HApproxTS = False \<rparr>]"
    by code_simp
  have N: "numberFrom 0 (concat ?X) =
      [?g, \<lparr> HCommand = ''ew x'', HTimestamp = 9, HSource = ''zsh'', HOrder = 1, HApproxTS = False \<rparr>,
       \<lparr> HCommand = ''Git Status'', HTimestamp = 7, HSource = ''bash'', HOrder = 2, HApproxTS = False \<rparr>]"
    by simp
  have g: "normalizeHistoryCommand (HCommand ?g) = ''git status''"
    "normalizeHistoryCommand (HCommand ?g) \<noteq> []"
    "\<not> isSensitiveCommand (normalizeHistoryCommand (HCommand ?g))"
    "\<not> isLikelyShellOutput (normalizeHistoryCommand (HCommand ?g))"
    "\<not> isInternalCommand (normalizeHistoryCommand (HCommand ?g))"
    "ToLower ''git status'' = ''git status''"
    by code_simp+
  have m: "?g \<in> set (numberFrom 0 (concat ?X))" unfolding N by simp
  have len: "length (LoadEntries ?X) < 12000" unfolding L by simp
  have T: "\<forall>e'\<in>set (numberFrom 0 (concat ?X)).
              normalizeHistoryCommand (HCommand e') \<noteq> []
              \<and> \<not> isSensitiveCommand (normalizeHistoryCommand (HCommand e'))
              \<and> \<not> isLikelyShellOutput (normalizeHistoryCommand (HCommand e'))
              \<and> \<not> isInternalCommand (normalizeHistoryCommand (HCommand e'))
              \<longrightarrow> (\<exists>e\<in>set (LoadEntries ?X).
                     ToLower (HCommand e) = ToLower (normalizeHistoryCommand (HCommand e')))"
    using load_entries_properties[of ?X] len by blast
  have ex: "\<exists>e\<in>set (LoadEntries ?X). ToLower (HCommand e) = ''git status''"
    using T[rule_format, OF m] g by metis
  have rest: "\<not> isInternalCommand ''Git Status'' \<and> length (LoadEntries ?X) \<le> 12000"
    using load_entries_properties[of ?X] unfolding L by simp
  show ?thesis using L ex rest by blast
qed

end
